theory Spec2Isabelle
  imports Main "HOL-Library.AList" "HOL-Library.Char_ord" "HOL-Library.List_Lexorder"
begin

section \<open>JavaScript values\<close>

text \<open>
  The dispatcher of \<^verbatim>\<open>seneca.js\<close> works on plain JavaScript data. A value is
  \<^verbatim>\<open>undefined\<close>, \<^verbatim>\<open>null\<close>, a boolean, a number (integers only: no claim
  depends on fractions or NaN), a string, an array or an object. An object is an association
  list from property names to values (a lookup follows the first binding of a name) with a
  class tag: \<open>Plain\<close> for object literals, \<open>ErrorObj\<close> for instances of
  \<^verbatim>\<open>Error\<close>. Functions are not values of the model: handlers, continuations,
  validators, subscribers and the error handler are HOL functions.
\<close>

datatype objclass = Plain | ErrorObj

datatype jsval =
    JUndefined
  | JNull
  | JBool bool
  | JNum int
  | JStr string
  | JArr "jsval list"
  | JObj objclass "(string \<times> jsval) list"

type_synonym jsobj = "(string \<times> jsval) list"

text \<open>\<^verbatim>\<open>!!v\<close>: the falsy values are undefined, null, false, 0 and the empty string.\<close>

fun truthy :: "jsval \<Rightarrow> bool" where
  "truthy JUndefined = False"
| "truthy JNull = False"
| "truthy (JBool b) = b"
| "truthy (JNum n) = (n \<noteq> 0)"
| "truthy (JStr s) = (s \<noteq> [])"
| "truthy (JArr xs) = True"
| "truthy (JObj c ps) = True"

text \<open>\<^verbatim>\<open>a || b\<close> on values.\<close>

definition or_js :: "jsval \<Rightarrow> jsval \<Rightarrow> jsval" where
  "or_js a b = (if truthy a then a else b)"

text \<open>\<^verbatim>\<open>v == null\<close>: true of null and undefined only.\<close>

fun is_nullish :: "jsval \<Rightarrow> bool" where
  "is_nullish JUndefined = True"
| "is_nullish JNull = True"
| "is_nullish v = False"

text \<open>Property read \<^verbatim>\<open>obj[k]\<close> on an object's property list: undefined when absent.\<close>

definition get :: "jsobj \<Rightarrow> string \<Rightarrow> jsval" where
  "get obj k = (case map_of obj k of None \<Rightarrow> JUndefined | Some v \<Rightarrow> v)"

text \<open>Property write \<^verbatim>\<open>obj[k] = v\<close> and \<^verbatim>\<open>delete obj[k]\<close>.\<close>

definition put :: "jsobj \<Rightarrow> string \<Rightarrow> jsval \<Rightarrow> jsobj" where
  "put obj k v = AList.update k v obj"

definition del :: "jsobj \<Rightarrow> string \<Rightarrow> jsobj" where
  "del obj k = AList.delete k obj"

text \<open>
  Property read \<^verbatim>\<open>v.k\<close> on any value the source reads a property of (it never does
  on null or undefined): primitives and arrays have none of the properties read here.
\<close>

fun jsprop :: "jsval \<Rightarrow> string \<Rightarrow> jsval" where
  "jsprop (JObj c ps) k = get ps k"
| "jsprop v k = JUndefined"

text \<open>lodash: \<^verbatim>\<open>_.keys\<close>, \<^verbatim>\<open>_.isObject\<close>, \<^verbatim>\<open>_.isPlainObject\<close>,
  \<^verbatim>\<open>_.isArray\<close>, \<^verbatim>\<open>_.isUndefined\<close>.\<close>

definition keys :: "jsobj \<Rightarrow> string list" where
  "keys obj = map fst obj"

fun isObject :: "jsval \<Rightarrow> bool" where
  "isObject (JArr xs) = True"
| "isObject (JObj c ps) = True"
| "isObject v = False"

fun isPlainObject :: "jsval \<Rightarrow> bool" where
  "isPlainObject (JObj Plain ps) = True"
| "isPlainObject v = False"

fun isArray :: "jsval \<Rightarrow> bool" where
  "isArray (JArr xs) = True"
| "isArray v = False"

fun isUndefined :: "jsval \<Rightarrow> bool" where
  "isUndefined JUndefined = True"
| "isUndefined v = False"

text \<open>
  \<^verbatim>\<open>_.extend(a, b)\<close>: every property of \<open>b\<close>, in order, is assigned to \<open>a\<close>;
  on a shared name the value of \<open>b\<close> wins.
\<close>

definition extend_obj :: "jsobj \<Rightarrow> jsobj \<Rightarrow> jsobj" where
  "extend_obj a b = fold (\<lambda>(k, v) acc. put acc k v) b a"

subsection \<open>Strings\<close>

fun string_of_nat :: "nat \<Rightarrow> string" where
  "string_of_nat n =
     (if n < 10 then [''0123456789'' ! n]
      else string_of_nat (n div 10) @ [''0123456789'' ! (n mod 10)])"

definition string_of_int :: "int \<Rightarrow> string" where
  "string_of_int i = (if i < 0 then CHR ''-'' # string_of_nat (nat (- i)) else string_of_nat (nat i))"

fun join :: "string \<Rightarrow> string list \<Rightarrow> string" where
  "join sep [] = []"
| "join sep [x] = x"
| "join sep (x # y # ys) = x @ sep @ join sep (y # ys)"

text \<open>
  String conversion \<^verbatim>\<open>'' + v\<close>. An array joins its elements with commas, null and
  undefined elements giving the empty string; a plain object gives
  \<^verbatim>\<open>[object Object]\<close>; an error gives \<^verbatim>\<open>Error\<close> followed by its message
  when that is a non-empty string.
\<close>

fun to_string :: "jsval \<Rightarrow> string" where
  "to_string JUndefined = ''undefined''"
| "to_string JNull = ''null''"
| "to_string (JBool b) = (if b then ''true'' else ''false'')"
| "to_string (JNum n) = string_of_int n"
| "to_string (JStr s) = s"
| "to_string (JArr xs) = join '','' (map (\<lambda>x. if is_nullish x then [] else to_string x) xs)"
| "to_string (JObj Plain ps) = ''[object Object]''"
| "to_string (JObj ErrorObj ps) =
     (case map_of ps ''message'' of
        Some (JStr m) \<Rightarrow> (if m = [] then ''Error'' else ''Error: '' @ m)
      | _ \<Rightarrow> ''Error'')"

text \<open>\<^verbatim>\<open>s.split('/')\<close>: the pieces between the separators; never empty.\<close>

fun split_on :: "char \<Rightarrow> string \<Rightarrow> string list" where
  "split_on c [] = [[]]"
| "split_on c (x # xs) =
     (if x = c then [] # split_on c xs
      else (case split_on c xs of
              [] \<Rightarrow> [[x]]
            | p # ps \<Rightarrow> (x # p) # ps))"

text \<open>Array read \<^verbatim>\<open>a[i]\<close> on an array of strings: undefined out of range.\<close>

definition at_index :: "string list \<Rightarrow> nat \<Rightarrow> jsval" where
  "at_index xs i = (if i < length xs then JStr (xs ! i) else JUndefined)"

subsection \<open>Errors\<close>

text \<open>
  \<^verbatim>\<open>internals.error\<close> is the error factory of the \<^verbatim>\<open>eraro\<close> library for the
  package \<^verbatim>\<open>seneca\<close>: \<^verbatim>\<open>internals.error(code, details)\<close> builds an error
  object marked \<^verbatim>\<open>seneca: true\<close> that carries the code;
  \<^verbatim>\<open>internals.error(ex, code, details)\<close> builds one that also keeps \<open>ex\<close> as
  \<^verbatim>\<open>orig\<close>.
\<close>

definition internals_error :: "string \<Rightarrow> jsobj \<Rightarrow> jsval" where
  "internals_error code details =
     JObj ErrorObj [(''code'', JStr code), (''seneca'', JBool True), (''eraro'', JBool True),
                    (''details'', JObj Plain details)]"

definition internals_error_ex :: "jsval \<Rightarrow> string \<Rightarrow> jsobj \<Rightarrow> jsval" where
  "internals_error_ex ex code details =
     JObj ErrorObj [(''code'', JStr code), (''seneca'', JBool True), (''eraro'', JBool True),
                    (''orig'', ex), (''details'', JObj Plain details)]"

section \<open>Data model\<close>

text \<open>
  A handler is called with the call message and a continuation. The model keeps what it
  does with the continuation: it calls it with an argument list (\<open>Done\<close>), throws
  (\<open>Throw\<close>), or returns without ever calling it (\<open>NoReply\<close>; the gate's timer, which
  runs in real time, is outside the model).
\<close>

datatype hresult = Done "jsval list" | Throw jsval | NoReply

text \<open>
  Action metadata, as \<^verbatim>\<open>api_add\<close> builds it. \<open>am_handle\<close> holds whether the
  metadata has a \<^verbatim>\<open>handle\<close> function, \<open>am_validate\<close> the validator function a
  modifier may install (it yields the validation error, a falsy value when the message is
  valid).
\<close>

datatype actmeta = Actmeta
  (am_id: string)
  (am_pattern: string)
  (am_func: "jsobj \<Rightarrow> hresult")
  (am_rules: jsobj)
  (am_plugin_name: jsval)
  (am_plugin_tag: jsval)
  (am_plugin_fullname: jsval)
  (am_priormeta: "actmeta option")
  (am_priorpath: string)
  (am_deprecate: jsval)
  (am_sub: bool)
  (am_client: bool)
  (am_handle: bool)
  (am_validate: "(jsobj \<Rightarrow> jsval) option")
  (am_raw: jsobj)
  (am_args: jsobj)

text \<open>The action function given to \<^verbatim>\<open>add\<close>, with the two properties
  \<^verbatim>\<open>api_add\<close> reads from it: \<^verbatim>\<open>action.validate\<close> (a rules object) and whether
  \<^verbatim>\<open>action.handle\<close> is a function.\<close>

record action =
  afunc :: "jsobj \<Rightarrow> hresult"
  avalidate :: "jsobj option"
  ahandle :: bool

text \<open>The optional \<^verbatim>\<open>actmeta\<close> argument of \<^verbatim>\<open>add\<close>: the plugin fields.\<close>

record meta_in =
  m_plugin_name :: jsval
  m_plugin_tag :: jsval
  m_plugin_fullname :: jsval

text \<open>The call context \<^verbatim>\<open>prior_ctxt\<close>.\<close>

record prior_ctxt =
  chain :: "string list"
  entry :: bool
  depth :: int

text \<open>A delegate or the root instance: the model keeps its \<^verbatim>\<open>fixedargs\<close>.\<close>

record inst =
  fixedargs :: jsobj

text \<open>The options \<^verbatim>\<open>so\<close> that the dispatcher reads. \<^verbatim>\<open>strict.maxloop\<close> is a
  number that no schema checks (``maximum number of times an action can call itself'',
  default 11): an integer here, which may be negative. The error handler returns a value
  whose truthiness is read.\<close>

record options =
  strict_result :: bool
  strict_fixedargs :: bool
  strict_add :: bool
  strict_find :: bool
  strict_maxloop :: int
  actcache_active :: bool
  actcache_size :: int
  internal_catchall :: bool
  trace_unknown :: bool
  legacy_error_codes :: bool
  errhandler :: "(jsval \<Rightarrow> jsval) option"

text \<open>
  What a run does that can be observed from outside, in order: log entries (kind and case),
  emitted events (name, message, second argument), subscriber calls, handler calls (action
  id and call message), calls of a continuation (with \<open>True\<close> when the call is deferred
  by \<^verbatim>\<open>setImmediate\<close>), calls of the error handler, \<^verbatim>\<open>die\<close>, calls of a
  prior's \<^verbatim>\<open>handle\<close> function, and error log entries (kind and error).
\<close>

datatype event =
    EvLog string string
  | EvEmit string jsobj jsval
  | EvSub string jsobj jsval
  | EvHandler string jsobj
  | EvCallback bool "jsval list"
  | EvErrHandler jsval
  | EvDie jsval
  | EvHandle string jsobj
  | EvLogError string jsval

record stats_act =
  n_calls :: nat
  n_done :: nat
  n_fails :: nat
  n_cache :: nat

record action_stats =
  as_id :: string
  as_prior :: string
  as_calls :: nat
  as_done :: nat
  as_fails :: nat

text \<open>A subscriber function: its name, and whether it throws on a message and result.\<close>

type_synonym subfunc = "string \<times> (jsobj \<Rightarrow> jsval \<Rightarrow> jsval option)"

record subs =
  subs_pattern :: string
  subs_funcs :: "subfunc list"

record cache_entry =
  ce_result :: "jsval list"
  ce_actmeta :: "actmeta option"

text \<open>
  The private state \<^verbatim>\<open>private$\<close> and the root's flags. Both identifier generators
  (\<^verbatim>\<open>actnid\<close>, \<^verbatim>\<open>root.idgen\<close>) draw random identifiers; the model draws them
  from one sequence \<open>nid\<close>, \<open>nid_next\<close> counting those drawn.
\<close>

record seneca_state =
  actrouter :: "(jsobj \<times> actmeta) list"
  subrouter :: "(jsobj \<times> subs) list"
  actcache :: "(string \<times> cache_entry) list"
  stats :: stats_act
  stats_actmap :: "(string \<times> action_stats) list"
  action_modifiers :: "(actmeta \<Rightarrow> actmeta) list"
  handle_sub_installed :: bool
  closed :: bool
  dead :: bool
  nid :: "nat \<Rightarrow> string"
  nid_next :: nat
  trace :: "event list"

definition idgen :: "seneca_state \<Rightarrow> string \<times> seneca_state" where
  "idgen st = (nid st (nid_next st), st\<lparr>nid_next := Suc (nid_next st)\<rparr>)"

definition refnid :: "seneca_state \<Rightarrow> string \<times> seneca_state" where
  "refnid st = (case idgen st of (i, st') \<Rightarrow> (''('' @ i @ '')'', st'))"

definition emit_log :: "string \<Rightarrow> string \<Rightarrow> seneca_state \<Rightarrow> seneca_state" where
  "emit_log kind cs st = st\<lparr>trace := trace st @ [EvLog kind cs]\<rparr>"

section \<open>Helpers of the repository that \<^verbatim>\<open>seneca.js\<close> calls\<close>

text \<open>
  Modelled from the spec: \<^verbatim>\<open>Common.clean\<close> (\<^verbatim>\<open>lib/common.js\<close>). Reserved
  attributes, whose names end in \<^verbatim>\<open>$\<close>, are stripped before a match.
\<close>

definition reserved :: "string \<Rightarrow> bool" where
  "reserved k = (k \<noteq> [] \<and> last k = CHR ''$'')"

definition clean :: "jsobj \<Rightarrow> jsobj" where
  "clean obj = filter (\<lambda>(k, v). \<not> reserved k) obj"

text \<open>
  Modelled from the spec: \<^verbatim>\<open>Common.pattern\<close> (\<^verbatim>\<open>lib/common.js\<close>), the
  canonical string form of a pattern: the sorted \<^verbatim>\<open>k:v\<close> pairs, joined by commas.
\<close>

definition common_pattern :: "jsobj \<Rightarrow> string" where
  "common_pattern obj = join '','' (sort (map (\<lambda>(k, v). k @ '':'' @ to_string v) obj))"

text \<open>
  Modelled from the spec: the pattern index (the \<^verbatim>\<open>patrun\<close> router behind
  \<^verbatim>\<open>Actions.find\<close> of \<^verbatim>\<open>lib/actions.js\<close>). A pattern matches a message that has
  each of its keys with an equal value; string values match as globs (\<^verbatim>\<open>*\<close>,
  \<^verbatim>\<open>?\<close>). \<open>find\<close> gives the payload of the matching pattern with the most keys,
  the latest added on a tie; the empty pattern matches every message. The router lists its
  entries latest first; \<open>add\<close> overwrites an identical pattern.
\<close>

fun glob_match :: "string \<Rightarrow> string \<Rightarrow> bool" where
  "glob_match [] s = (s = [])"
| "glob_match (p # ps) s =
     (if p = CHR ''*'' then
        (glob_match ps s \<or> (case s of [] \<Rightarrow> False | c # t \<Rightarrow> glob_match (p # ps) t))
      else if p = CHR ''?'' then (case s of [] \<Rightarrow> False | c # t \<Rightarrow> glob_match ps t)
      else (case s of [] \<Rightarrow> False | c # t \<Rightarrow> c = p \<and> glob_match ps t))"

definition value_matches :: "jsval \<Rightarrow> jsval \<Rightarrow> bool" where
  "value_matches pv mv =
     (case pv of
        JStr p \<Rightarrow> (case mv of JStr m \<Rightarrow> glob_match p m | _ \<Rightarrow> False)
      | _ \<Rightarrow> pv = mv)"

definition pattern_matches :: "jsobj \<Rightarrow> jsobj \<Rightarrow> bool" where
  "pattern_matches pat msg =
     list_all (\<lambda>(k, v). case map_of msg k of None \<Rightarrow> False | Some mv \<Rightarrow> value_matches v mv) pat"

fun most_specific :: "(jsobj \<times> 'a) list \<Rightarrow> (jsobj \<times> 'a) option" where
  "most_specific [] = None"
| "most_specific (e # es) =
     (case most_specific es of
        None \<Rightarrow> Some e
      | Some b \<Rightarrow> if length (fst e) < length (fst b) then Some b else Some e)"

definition router_find :: "(jsobj \<times> 'a) list \<Rightarrow> jsobj \<Rightarrow> 'a option" where
  "router_find router msg =
     map_option snd (most_specific (filter (\<lambda>(pat, d). pattern_matches pat msg) router))"

definition router_add :: "jsobj \<Rightarrow> 'a \<Rightarrow> (jsobj \<times> 'a) list \<Rightarrow> (jsobj \<times> 'a) list" where
  "router_add pat d router = (pat, d) # filter (\<lambda>(q, e). set q \<noteq> set pat) router"

definition find_action :: "seneca_state \<Rightarrow> jsobj \<Rightarrow> actmeta option" where
  "find_action st msg = router_find (actrouter st) (clean msg)"

section \<open>Registering an action: \<^verbatim>\<open>api_add\<close>\<close>

text \<open>
  The action used when \<^verbatim>\<open>add\<close> is given none: it answers with the message's
  \<^verbatim>\<open>default$\<close>, or null.
\<close>

definition default_action :: action where
  "default_action =
     \<lparr>afunc = (\<lambda>msg. Done [JNull, or_js (get msg ''default$'') JNull]),
      avalidate = None, ahandle = False\<rparr>"

text \<open>
  The two switches \<^verbatim>\<open>api_add\<close> computes (lines 688--692): the pattern's own
  \<^verbatim>\<open>strict$.add\<close> and \<^verbatim>\<open>internal$.catchall\<close> when the pattern carries a truthy
  \<^verbatim>\<open>strict$\<close> or \<^verbatim>\<open>internal$\<close> whose property is not null, else the options.
\<close>

definition add_strict_add :: "options \<Rightarrow> jsobj \<Rightarrow> bool" where
  "add_strict_add so raw_pattern =
     (if truthy (get raw_pattern ''strict$'') \<and> jsprop (get raw_pattern ''strict$'') ''add'' \<noteq> JNull
      then truthy (jsprop (get raw_pattern ''strict$'') ''add'')
      else strict_add so)"

definition add_internal_catchall :: "options \<Rightarrow> jsobj \<Rightarrow> bool" where
  "add_internal_catchall so raw_pattern =
     (if truthy (get raw_pattern ''internal$'') \<and>
         jsprop (get raw_pattern ''internal$'') ''catchall'' \<noteq> JNull
      then truthy (jsprop (get raw_pattern ''internal$'') ''catchall'')
      else internal_catchall so)"

text \<open>
  The override policy (lines 724--736): the prior found for the pattern is dropped when it
  is the catch-all and the catch-all switch is off, else when the strict switch is on and
  its canonical pattern differs from the new one.
\<close>

definition select_prior :: "bool \<Rightarrow> bool \<Rightarrow> string \<Rightarrow> actmeta option \<Rightarrow> actmeta option" where
  "select_prior catchall_on strict_on canon found =
     (case found of
        None \<Rightarrow> None
      | Some p \<Rightarrow>
          if \<not> catchall_on \<and> [] = am_pattern p then None
          else if strict_on \<and> am_pattern p \<noteq> canon then None
          else Some p)"

text \<open>
  The metadata \<^verbatim>\<open>api_add\<close> has built when it reaches the statistics (line 758), from
  the raw pattern, the action, the given plugin fields, the fresh identifier and the state
  whose router is searched for a prior. The result also gives the prior that was selected
  and the pattern left after the object-valued keys moved to the rules.
\<close>

definition new_actmeta ::
  "options \<Rightarrow> jsobj \<Rightarrow> action \<Rightarrow> meta_in \<Rightarrow> string \<Rightarrow> seneca_state
     \<Rightarrow> actmeta \<times> actmeta option \<times> jsobj" where
  "new_actmeta so raw_pattern act meta new_id st =
     (let plugin_name = or_js (m_plugin_name meta) (JStr ''root$'');
          tag = m_plugin_tag meta;
          plugin_fullname =
            or_js (m_plugin_fullname meta)
              (JStr (to_string plugin_name @
                 (if truthy (if tag = JStr ''-'' then JUndefined else tag)
                  then ''/'' @ to_string tag else [])));
          pattern0 = clean raw_pattern;
          pattern_rules =
            extend_obj (case avalidate act of None \<Rightarrow> [] | Some r \<Rightarrow> r)
                   (filter (\<lambda>(k, v). isObject v) pattern0);
          pattern = filter (\<lambda>(k, v). \<not> isObject v) pattern0;
          canon = common_pattern pattern;
          priormeta =
            select_prior (add_internal_catchall so raw_pattern) (add_strict_add so raw_pattern)
              canon (find_action st pattern)
      in (Actmeta new_id canon (afunc act) pattern_rules
            plugin_name tag plugin_fullname
            (case priormeta of
               None \<Rightarrow> None
             | Some p \<Rightarrow> if am_handle p then None else Some p)
            (case priormeta of
               None \<Rightarrow> []
             | Some p \<Rightarrow> am_id p @ '';'' @ am_priorpath p)
            (get raw_pattern ''deprecate$'')
            (truthy (get raw_pattern ''sub$''))
            (truthy (get raw_pattern ''client$''))
            (ahandle act)
            None
            raw_pattern
            pattern,
          priormeta, pattern))"

definition make_action_stats :: "actmeta \<Rightarrow> action_stats" where
  "make_action_stats am =
     \<lparr>as_id = am_id am, as_prior = am_priorpath am, as_calls = 0, as_done = 0, as_fails = 0\<rparr>"

definition modify_action :: "(actmeta \<Rightarrow> actmeta) list \<Rightarrow> actmeta \<Rightarrow> actmeta" where
  "modify_action mods am = fold (\<lambda>actmod a. actmod a) mods am"

text \<open>
  \<^verbatim>\<open>api_add\<close> (lines 656--777), from the pattern that \<^verbatim>\<open>Common.parsePattern\<close>
  returns. The result is the thrown error or the new state (the call returns \<open>self\<close>).
  The guard of line 696 is \<^verbatim>\<open>!_.keys(pattern)\<close>: \<^verbatim>\<open>_.keys\<close> gives an array,
  and the guard reads the array's truthiness.
\<close>

definition api_add ::
  "options \<Rightarrow> inst \<Rightarrow> jsobj \<Rightarrow> action option \<Rightarrow> meta_in \<Rightarrow> seneca_state
     \<Rightarrow> jsval + seneca_state" where
  "api_add so self raw_pattern action_opt meta st =
     (let act = (case action_opt of None \<Rightarrow> default_action | Some a \<Rightarrow> a)
      in if \<not> truthy (JArr (map JStr (keys (clean raw_pattern))))
         then Inl (internals_error ''add_empty_pattern''
                     [(''args'', JObj Plain (clean raw_pattern))])
         else
           (case refnid st of (new_id, st1) \<Rightarrow>
            (case new_actmeta so raw_pattern act meta new_id st1 of (am, prior, pattern) \<Rightarrow>
             (let addroute = (case prior of None \<Rightarrow> True | Some p \<Rightarrow> \<not> am_handle p);
                  st2 = (case prior of
                           None \<Rightarrow> st1
                         | Some p \<Rightarrow>
                             if am_handle p
                             then st1\<lparr>trace := trace st1 @ [EvHandle (am_id p) raw_pattern]\<rparr>
                             else st1);
                  st3 = (case map_of (stats_actmap st2) (am_pattern am) of
                           Some a \<Rightarrow> st2
                         | None \<Rightarrow>
                             st2\<lparr>stats_actmap :=
                                    stats_actmap st2 @ [(am_pattern am, make_action_stats am)]\<rparr>);
                  am' = modify_action (action_modifiers st3) am
              in Inr (if addroute
                      then (emit_log ''add'' (if am_sub am' then ''SUB'' else ''ADD'') st3)
                             \<lparr>actrouter := router_add pattern am' (actrouter st3)\<rparr>
                      else st3)))))"

section \<open>Delegates and \<^verbatim>\<open>api_act\<close>\<close>

text \<open>
  \<^verbatim>\<open>api_delegate\<close> (lines 1574--1620): the delegate's fixed arguments are the given
  ones merged with those of the instance it is made from; \<^verbatim>\<open>strict.fixedargs\<close>
  chooses which side is written last.
\<close>

definition api_delegate :: "options \<Rightarrow> inst \<Rightarrow> jsobj \<Rightarrow> inst" where
  "api_delegate so self fixed =
     \<lparr>fixedargs =
        (if strict_fixedargs so
         then extend_obj (extend_obj [] fixed) (fixedargs self)
         else extend_obj (extend_obj [] (fixedargs self)) fixed)\<rparr>"

section \<open>The action cache\<close>

text \<open>
  \<^verbatim>\<open>private$.actcache\<close> is an \<^verbatim>\<open>lru-cache\<close> of \<^verbatim>\<open>actcache.size\<close>
  entries when \<^verbatim>\<open>actcache.active\<close>, else an object whose \<^verbatim>\<open>set\<close> does
  nothing. The cache lists its entries most recently used first; a size that is not positive
  means no bound. \<open>get\<close> makes the entry the most recent one.
\<close>

definition lru_set ::
  "int \<Rightarrow> string \<Rightarrow> cache_entry \<Rightarrow> (string \<times> cache_entry) list \<Rightarrow> (string \<times> cache_entry) list" where
  "lru_set mx k v c =
     (if mx \<le> 0 then (k, v) # AList.delete k c else take (nat mx) ((k, v) # AList.delete k c))"

definition lru_get ::
  "string \<Rightarrow> (string \<times> cache_entry) list \<Rightarrow> cache_entry option \<times> (string \<times> cache_entry) list" where
  "lru_get k c =
     (case map_of c k of
        None \<Rightarrow> (None, c)
      | Some v \<Rightarrow> (Some v, (k, v) # AList.delete k c))"

definition actcache_set :: "options \<Rightarrow> string \<Rightarrow> cache_entry \<Rightarrow> seneca_state \<Rightarrow> seneca_state" where
  "actcache_set so k v st =
     (if actcache_active so then st\<lparr>actcache := lru_set (actcache_size so) k v (actcache st)\<rparr>
      else st)"

text \<open>
  The cache keeps the array \<^verbatim>\<open>result\<close> itself, not a copy: what \<^verbatim>\<open>act_done\<close>
  writes to \<^verbatim>\<open>result[0]\<close> after \<^verbatim>\<open>actcache.set\<close> is seen through the entry.
  \<open>actcache_alias\<close> carries such a write over to the entry stored under the key.
\<close>

definition actcache_alias :: "string \<Rightarrow> jsval list \<Rightarrow> seneca_state \<Rightarrow> seneca_state" where
  "actcache_alias k r st =
     st\<lparr>actcache := map (\<lambda>(k', e). if k' = k then (k', e\<lparr>ce_result := r\<rparr>) else (k', e)) (actcache st)\<rparr>"

text \<open>A continuation: none given (\<^verbatim>\<open>_.noop\<close> stands in), or a function; the model
  keeps whether its call with an argument list throws.\<close>

type_synonym continuation = "(jsval list \<Rightarrow> jsval option) option"

text \<open>
  \<^verbatim>\<open>apply_actcache\<close> (lines 1420--1446). The key is \<^verbatim>\<open>callargs.id$ ||
  callargs.actid$\<close> as it stands; the stored keys are strings, so only a string finds an
  entry. On a hit the counter \<^verbatim>\<open>act.cache\<close> goes up, the hit is logged, the stored
  tuple is handed to the continuation by \<^verbatim>\<open>setImmediate\<close>, and the result is truthy.
\<close>

definition apply_actcache ::
  "options \<Rightarrow> jsobj \<Rightarrow> continuation \<Rightarrow> seneca_state \<Rightarrow> bool \<times> seneca_state" where
  "apply_actcache so callargs actcb st =
     (let actid = or_js (get callargs ''id$'') (get callargs ''actid$'')
      in if \<not> is_nullish actid \<and> actcache_active so then
           (case actid of
              JStr k \<Rightarrow>
                (case lru_get k (actcache st) of
                   (None, c) \<Rightarrow> (False, st)
                 | (Some actdetails, c) \<Rightarrow>
                     (True,
                      st\<lparr>actcache := c,
                         stats := (stats st)\<lparr>n_cache := Suc (n_cache (stats st))\<rparr>,
                         trace := trace st @ [EvLog ''act'' ''CACHE'',
                                              EvCallback True (ce_result actdetails)]\<rparr>))
            | _ \<Rightarrow> (False, st))
         else (False, st))"

section \<open>Subscribers\<close>

text \<open>
  \<^verbatim>\<open>subfunc.call(self, args, result)\<close>: the call is observed; the first component
  is the exception when the subscriber throws.
\<close>

definition call_sub ::
  "jsobj \<Rightarrow> jsval \<Rightarrow> subfunc \<Rightarrow> seneca_state \<Rightarrow> jsval option \<times> seneca_state" where
  "call_sub args result sf st =
     (snd sf args result, st\<lparr>trace := trace st @ [EvSub (fst sf) args result]\<rparr>)"

text \<open>The body of the loop in \<^verbatim>\<open>handle_sub\<close> (lines 597--608): the call inside
  \<^verbatim>\<open>try\<close>, and the \<^verbatim>\<open>catch\<close> that logs the error.\<close>

definition try_sub ::
  "jsobj \<Rightarrow> jsval \<Rightarrow> subfunc \<Rightarrow> seneca_state \<Rightarrow> jsval option \<times> seneca_state" where
  "try_sub args result sf st =
     (case call_sub args result sf st of
        (None, st1) \<Rightarrow> (None, st1)
      | (Some ex, st1) \<Rightarrow>
          (None,
           st1\<lparr>trace := trace st1 @
                  [EvLogError ''sub'' (internals_error_ex ex ''sub_function_catch'' [])]\<rparr>))"

text \<open>\<^verbatim>\<open>_.each(subfuncs, ...)\<close>: an exception that leaves the body ends the loop.\<close>

fun each_sub ::
  "jsobj \<Rightarrow> jsval \<Rightarrow> subfunc list \<Rightarrow> seneca_state \<Rightarrow> jsval option \<times> seneca_state" where
  "each_sub args result [] st = (None, st)"
| "each_sub args result (sf # sfs) st =
     (case try_sub args result sf st of
        (None, st1) \<Rightarrow> each_sub args result sfs st1
      | (Some ex, st1) \<Rightarrow> (Some ex, st1))"

definition set_prop :: "jsval \<Rightarrow> string \<Rightarrow> jsval \<Rightarrow> jsval" where
  "set_prop obj k v = (case obj of JObj c ps \<Rightarrow> JObj c (put ps k v) | _ \<Rightarrow> obj)"

text \<open>
  \<^verbatim>\<open>private$.handle_sub\<close> (lines 584--611). The result gives the exception that
  leaves the function (if any), the subscription pattern it wrote to
  \<^verbatim>\<open>args.meta$.sub\<close> (if it did), and the state.
\<close>

definition handle_sub ::
  "jsobj \<Rightarrow> jsval \<Rightarrow> seneca_state \<Rightarrow> jsval option \<times> string option \<times> seneca_state" where
  "handle_sub args result st =
     (let meta = or_js (get args ''meta$'') (JObj Plain []);
          args1 = put args ''meta$'' meta
      in if jsprop meta ''entry'' \<noteq> JBool True then (None, None, st)
         else
           (case router_find (subrouter st) args1 of
              None \<Rightarrow> (None, None, st)
            | Some subfuncs \<Rightarrow>
                (let args2 = put args1 ''meta$''
                               (set_prop meta ''sub'' (JStr (subs_pattern subfuncs)))
                 in case each_sub args2 result (subs_funcs subfuncs) st of
                      (ex, st1) \<Rightarrow> (ex, Some (subs_pattern subfuncs), st1))))"

text \<open>
  The listeners that \<^verbatim>\<open>api_sub\<close> installs on \<^verbatim>\<open>act-in\<close> and
  \<^verbatim>\<open>act-out\<close> (lines 616--627): a shallow copy of the message gets the property
  \<open>pr\<close> and goes to \<open>handle_sub\<close>. The copy shares the object \<^verbatim>\<open>meta$\<close> with the
  emitted message, so a write to \<^verbatim>\<open>meta$.sub\<close> shows in the message: the second
  component is the message after the listeners ran.
\<close>

definition emit_subs ::
  "string \<Rightarrow> jsobj \<Rightarrow> jsval \<Rightarrow> seneca_state \<Rightarrow> jsval option \<times> jsobj \<times> seneca_state" where
  "emit_subs pr callargs result st =
     (if handle_sub_installed st then
        (case handle_sub (put callargs pr (JBool True)) result st of
           (ex, None, st1) \<Rightarrow> (ex, callargs, st1)
         | (ex, Some pat, st1) \<Rightarrow>
             (ex,
              if truthy (get callargs ''meta$'')
              then put callargs ''meta$'' (set_prop (get callargs ''meta$'') ''sub'' (JStr pat))
              else callargs,
              st1))
      else (None, callargs, st))"

text \<open>
  \<^verbatim>\<open>api_sub\<close> (lines 569--637), from the parsed pattern: \<^verbatim>\<open>in$\<close> is set
  when the pattern names no kind of event, the listeners are installed once, and the
  subscriber joins the list the subscription router finds for the pattern, or a new list.
  A list is told from the others by the pattern string it was created with.
\<close>

definition api_sub :: "jsobj \<Rightarrow> subfunc \<Rightarrow> seneca_state \<Rightarrow> seneca_state" where
  "api_sub pattern0 sf st =
     (let pattern =
            (if is_nullish (get pattern0 ''in$'') \<and> is_nullish (get pattern0 ''out$'') \<and>
                is_nullish (get pattern0 ''error$'') \<and> is_nullish (get pattern0 ''cache$'') \<and>
                is_nullish (get pattern0 ''default$'') \<and> is_nullish (get pattern0 ''client$'')
             then put pattern0 ''in$'' (JBool True) else pattern0);
          st1 = st\<lparr>handle_sub_installed := True\<rparr>
      in case router_find (subrouter st1) pattern of
           None \<Rightarrow>
             st1\<lparr>subrouter :=
                   router_add pattern
                     \<lparr>subs_pattern = common_pattern pattern, subs_funcs = [sf]\<rparr> (subrouter st1)\<rparr>
         | Some found \<Rightarrow>
             st1\<lparr>subrouter :=
                   map (\<lambda>(q, e). if subs_pattern e = subs_pattern found
                                 then (q, e\<lparr>subs_funcs := subs_funcs e @ [sf]\<rparr>)
                                 else (q, e))
                       (subrouter st1)\<rparr>)"

section \<open>The dispatcher\<close>

text \<open>
  The variables that the closures of \<^verbatim>\<open>do_act\<close> share. \<^verbatim>\<open>args\<close> and
  \<^verbatim>\<open>callargs\<close> name one object until \<^verbatim>\<open>execute_action\<close> rebuilds
  \<^verbatim>\<open>callargs\<close>; \<open>f_actstats\<close> holds the pattern whose statistics
  \<^verbatim>\<open>actstats\<close> refers to, once \<^verbatim>\<open>act_stats_call\<close> has run.
\<close>

record frame =
  f_instance :: inst
  f_args :: jsobj
  f_callargs :: jsobj
  f_origargs :: jsobj
  f_actmeta :: "actmeta option"
  f_actstats :: "string option"
  f_prior_ctxt :: prior_ctxt
  f_actid :: string
  f_tx :: jsval
  f_is_sync :: bool
  f_actdone :: continuation

text \<open>
  Modelled from the spec: \<^verbatim>\<open>instance.die\<close>, made by \<^verbatim>\<open>Common.makedie\<close>
  (\<^verbatim>\<open>lib/common.js\<close>). ``\<^verbatim>\<open>die\<close> is one-shot: it emits \<^verbatim>\<open>error\<close>, flushes
  pending logs, and terminates the instance'', and the error handler, if installed,
  ``observes every error'': the call is observed, \<^verbatim>\<open>error\<close> is emitted, the error
  handler is called with the error (its answer is not read), and the instance is dead.
\<close>

definition die :: "options \<Rightarrow> jsval \<Rightarrow> seneca_state \<Rightarrow> seneca_state" where
  "die so err st =
     st\<lparr>dead := True,
        trace := trace st @ [EvDie err, EvEmit ''error'' [] err] @
                   (case errhandler so of Some h \<Rightarrow> [EvErrHandler err] | None \<Rightarrow> [])\<rparr>"

text \<open>\<^verbatim>\<open>result[0] = v\<close> on the argument array, which grows when it is empty.\<close>

fun set0 :: "jsval \<Rightarrow> jsval list \<Rightarrow> jsval list" where
  "set0 v [] = [v]"
| "set0 v (x # xs) = v # xs"

definition arg_at :: "jsval list \<Rightarrow> nat \<Rightarrow> jsval" where
  "arg_at xs i = (if i < length xs then xs ! i else JUndefined)"

definition bump_fails :: "string option \<Rightarrow> seneca_state \<Rightarrow> seneca_state" where
  "bump_fails actstats st =
     st\<lparr>stats := (stats st)\<lparr>n_fails := Suc (n_fails (stats st))\<rparr>,
        stats_actmap :=
          (case actstats of
             None \<Rightarrow> stats_actmap st
           | Some pat \<Rightarrow>
               map (\<lambda>(k, a). if k = pat then (k, a\<lparr>as_fails := Suc (as_fails a)\<rparr>) else (k, a))
                   (stats_actmap st))\<rparr>"

definition bump_done :: "string option \<Rightarrow> seneca_state \<Rightarrow> seneca_state" where
  "bump_done actstats st =
     (case actstats of
        None \<Rightarrow> st
      | Some pat \<Rightarrow>
          st\<lparr>stats := (stats st)\<lparr>n_done := Suc (n_done (stats st))\<rparr>,
             stats_actmap :=
               map (\<lambda>(k, a). if k = pat then (k, a\<lparr>as_done := Suc (as_done a)\<rparr>) else (k, a))
                   (stats_actmap st)\<rparr>)"

text \<open>
  \<^verbatim>\<open>act_stats_call\<close> (lines 1451--1459): the entry of the pattern is created when
  absent (its counters then read as zero), and both call counters go up.
\<close>

definition act_stats_call :: "string \<Rightarrow> seneca_state \<Rightarrow> seneca_state" where
  "act_stats_call pat st =
     (let amap = (case map_of (stats_actmap st) pat of
                    Some a \<Rightarrow> stats_actmap st
                  | None \<Rightarrow>
                      stats_actmap st @
                        [(pat, \<lparr>as_id = [], as_prior = [], as_calls = 0, as_done = 0, as_fails = 0\<rparr>)])
      in st\<lparr>stats := (stats st)\<lparr>n_calls := Suc (n_calls (stats st))\<rparr>,
            stats_actmap :=
              map (\<lambda>(k, a). if k = pat then (k, a\<lparr>as_calls := Suc (as_calls a)\<rparr>) else (k, a)) amap\<rparr>)"

text \<open>
  \<^verbatim>\<open>act_error\<close> (lines 1322--1375). An error that is not marked
  \<^verbatim>\<open>seneca\<close> is wrapped as \<^verbatim>\<open>act_execute\<close> and written to
  \<^verbatim>\<open>result[0]\<close>; the legacy case unwraps an original whose code starts with
  \<^verbatim>\<open>perm/\<close>. The error is logged, \<^verbatim>\<open>act-err\<close> is emitted, and the error
  handler is called unless the call message carries a truthy \<^verbatim>\<open>fatal$\<close>; its answer,
  negated, is \<^verbatim>\<open>call_cb\<close>. The result gives \<^verbatim>\<open>call_cb\<close>, the error, the
  argument array and the state; \<open>format_error\<close> is the error after lines 1327--1348.
  (The bookkeeping of \<^verbatim>\<open>err.details.plugin\<close> is left out.)
\<close>

definition is_perm_error :: "jsval \<Rightarrow> bool" where
  "is_perm_error err =
     (truthy (jsprop err ''orig'') \<and>
      (case jsprop (jsprop err ''orig'') ''code'' of
         JStr c \<Rightarrow> take 5 c = ''perm/''
       | _ \<Rightarrow> False))"

definition format_error :: "jsval \<Rightarrow> actmeta option \<Rightarrow> jsval" where
  "format_error err0 actmeta =
     (if \<not> truthy (jsprop err0 ''seneca'')
      then internals_error_ex err0 ''act_execute''
             [(''pattern'', case actmeta of None \<Rightarrow> JUndefined | Some am \<Rightarrow> JStr (am_pattern am))]
      else if is_perm_error err0 then jsprop err0 ''orig''
      else err0)"

definition act_error ::
  "options \<Rightarrow> jsval \<Rightarrow> actmeta option \<Rightarrow> jsval list \<Rightarrow> jsobj \<Rightarrow> seneca_state
     \<Rightarrow> bool \<times> jsval \<times> jsval list \<times> seneca_state" where
  "act_error so err0 actmeta result0 callargs st =
     (let err = format_error err0 actmeta;
          result = (if \<not> truthy (jsprop err0 ''seneca'') \<or> is_perm_error err0
                    then set0 err result0 else result0);
          st1 = st\<lparr>trace := trace st @ [EvLogError ''act'' err, EvEmit ''act-err'' callargs err]\<rparr>
      in case errhandler so of
           Some h \<Rightarrow>
             if \<not> truthy (get callargs ''fatal$'')
             then (\<not> truthy (h err), err, result, st1\<lparr>trace := trace st1 @ [EvErrHandler err]\<rparr>)
             else (True, err, result, st1)
         | None \<Rightarrow> (True, err, result, st1))"

text \<open>
  \<^verbatim>\<open>callback_error\<close> (lines 1377--1416), for an exception thrown by the
  continuation: wrapped as \<^verbatim>\<open>act_callback\<close> unless marked \<^verbatim>\<open>seneca\<close>, logged,
  emitted as \<^verbatim>\<open>act-err\<close>, and shown to the error handler, whose answer is not read.
\<close>

definition callback_error ::
  "options \<Rightarrow> jsval \<Rightarrow> actmeta option \<Rightarrow> jsval list \<Rightarrow> jsobj \<Rightarrow> seneca_state
     \<Rightarrow> jsval list \<times> seneca_state" where
  "callback_error so err0 actmeta result0 callargs st =
     (let wrapped = internals_error_ex err0 ''act_callback''
                      [(''pattern'', case actmeta of None \<Rightarrow> JUndefined
                                     | Some am \<Rightarrow> JStr (am_pattern am))];
          err = (if \<not> truthy (jsprop err0 ''seneca'') then wrapped else err0);
          result = (if \<not> truthy (jsprop err0 ''seneca'') then set0 err result0 else result0);
          st1 = st\<lparr>trace := trace st @ [EvLogError ''act'' err, EvEmit ''act-err'' callargs err]\<rparr>
      in case errhandler so of
           Some h \<Rightarrow> (result, st1\<lparr>trace := trace st1 @ [EvErrHandler err]\<rparr>)
         | None \<Rightarrow> (result, st1))"

text \<open>
  \<^verbatim>\<open>Jsonic.stringify\<close> (the \<^verbatim>\<open>jsonic\<close> library): the compact rendering of a
  value, \<^verbatim>\<open>{a:1,b:[x,y]}\<close>. (Its quoting of strings and its limits on depth and size
  are left out.)
\<close>

fun jsonic_stringify :: "jsval \<Rightarrow> string" where
  "jsonic_stringify JUndefined = ''null''"
| "jsonic_stringify JNull = ''null''"
| "jsonic_stringify (JBool b) = (if b then ''true'' else ''false'')"
| "jsonic_stringify (JNum n) = string_of_int n"
| "jsonic_stringify (JStr s) = s"
| "jsonic_stringify (JArr xs) = ''['' @ join '','' (map jsonic_stringify xs) @ '']''"
| "jsonic_stringify (JObj c ps) =
     ''{'' @ join '','' (map (\<lambda>p. fst p @ '':'' @ jsonic_stringify (snd p)) ps) @ ''}''"

text \<open>An exception that is not an \<^verbatim>\<open>Error\<close> becomes one (lines 1192--1198): the
  message of the new error is the rendering by \<^verbatim>\<open>Jsonic.stringify\<close> when the
  exception is an object or an array (\<^verbatim>\<open>_.isObject\<close>), else its string form.\<close>

definition format_thrown :: "jsval \<Rightarrow> jsval" where
  "format_thrown ex =
     (case ex of
        JObj ErrorObj ps \<Rightarrow> ex
      | JObj Plain ps \<Rightarrow> JObj ErrorObj [(''message'', JStr (jsonic_stringify ex))]
      | JArr xs \<Rightarrow> JObj ErrorObj [(''message'', JStr (jsonic_stringify ex))]
      | _ \<Rightarrow> JObj ErrorObj [(''message'', JStr (to_string ex))])"

text \<open>The call of the continuation (lines 1184--1202): the call is observed; when the
  continuation throws, \<open>callback_error\<close> runs and its write to \<^verbatim>\<open>result[0]\<close>
  reaches the cached array.\<close>

definition call_actdone :: "options \<Rightarrow> frame \<Rightarrow> jsval list \<Rightarrow> seneca_state \<Rightarrow> seneca_state" where
  "call_actdone so fr result st =
     (let st1 = st\<lparr>trace := trace st @ [EvCallback False result]\<rparr>
      in case f_actdone fr of
           None \<Rightarrow> st1
         | Some cb \<Rightarrow>
             (case cb result of
                None \<Rightarrow> st1
              | Some ex \<Rightarrow>
                  (case callback_error so (format_thrown ex) (f_actmeta fr) result
                          (f_callargs fr) st1 of
                     (result', st2) \<Rightarrow> actcache_alias (f_actid fr) result' st2)))"

text \<open>The legacy patterns whose results need not be objects (lines 1120--1124).\<close>

definition legacy_result :: "jsobj \<Rightarrow> bool" where
  "legacy_result callargs =
     (get callargs ''cmd'' = JStr ''generate_id'' \<or> get callargs ''note'' = JBool True \<or>
      get callargs ''cmd'' = JStr ''native'' \<or> get callargs ''cmd'' = JStr ''quickcode'')"

text \<open>
  \<^verbatim>\<open>act_done\<close> (lines 1093--1207), called with the argument array \<open>result\<close>.
  \<open>result_error\<close> is \<^verbatim>\<open>err\<close> after the check of the result (lines 1111--1132):
  the first argument, or \<^verbatim>\<open>result_not_objarr\<close> for a result that is neither an
  object nor an array under \<^verbatim>\<open>strict.result\<close>. The tuple is stored in the cache before the error is looked at. On an error the failure
  counters go up and \<open>act_error\<close> runs; a truthy \<^verbatim>\<open>args.fatal$\<close> then ends in
  \<open>die\<close>, else \<^verbatim>\<open>result[0]\<close> becomes the error and the continuation is called
  when \<^verbatim>\<open>call_cb\<close> holds. On success \<^verbatim>\<open>act-out\<close> is emitted,
  \<^verbatim>\<open>result[0]\<close> becomes null and the continuation is called. An exception of an
  \<^verbatim>\<open>act-out\<close> listener reaches the outer \<^verbatim>\<open>catch\<close>, whose \<^verbatim>\<open>error\<close>
  event ends in \<open>die\<close>. (The timing statistics are left out, and so are the writes
  to \<^verbatim>\<open>prior_ctxt.depth\<close> and \<^verbatim>\<open>prior_ctxt.entry\<close>, which only they and the
  log entries read afterwards.)
\<close>

definition result_error :: "options \<Rightarrow> frame \<Rightarrow> jsval list \<Rightarrow> jsval" where
  "result_error so fr result =
     (if is_nullish (arg_at result 0) \<and> \<not> is_nullish (arg_at result 1) \<and>
         \<not> (isPlainObject (arg_at result 1) \<or> isArray (arg_at result 1) \<or>
            truthy (jsprop (arg_at result 1) ''entity$'') \<or>
            truthy (jsprop (arg_at result 1) ''force$'')) \<and>
         strict_result so \<and> \<not> legacy_result (f_callargs fr)
      then internals_error ''result_not_objarr''
             [(''pattern'', case f_actmeta fr of None \<Rightarrow> JUndefined
                            | Some am \<Rightarrow> JStr (am_pattern am)),
              (''result'', arg_at result 1)]
      else arg_at result 0)"

definition act_done :: "options \<Rightarrow> frame \<Rightarrow> jsval list \<Rightarrow> seneca_state \<Rightarrow> seneca_state" where
  "act_done so fr result st =
     (let resdata = arg_at result 1;
          err = result_error so fr result;
          st1 = actcache_set so (f_actid fr)
                  \<lparr>ce_result = result, ce_actmeta = f_actmeta fr\<rparr> st
      in if truthy err then
           (case act_error so err (f_actmeta fr) result (f_callargs fr)
                   (bump_fails (f_actstats fr) st1) of
              (call_cb, err', result1, st2) \<Rightarrow>
                if truthy (get (f_args fr) ''fatal$'')
                then die so err' (actcache_alias (f_actid fr) result1 st2)
                else
                  (let result2 = set0 err' result1;
                       st3 = actcache_alias (f_actid fr) result2 st2
                   in if call_cb then call_actdone so fr result2 st3 else st3))
         else
           (case emit_subs ''out$'' (f_callargs fr) resdata
                   (st1\<lparr>trace := trace st1 @ [EvEmit ''act-out'' (f_callargs fr) resdata]\<rparr>) of
              (Some ex, callargs', st2) \<Rightarrow>
                die so ex (st2\<lparr>trace := trace st2 @ [EvEmit ''error'' [] ex]\<rparr>)
            | (None, callargs', st2) \<Rightarrow>
                (let result2 = set0 JNull result;
                     st3 = actcache_alias (f_actid fr) result2 st2;
                     st4 = bump_done (f_actstats fr) (emit_log ''act'' ''OUT'' st3)
                 in call_actdone so (fr\<lparr>f_callargs := callargs'\<rparr>) result2 st4)))"

text \<open>The number of entries of \<^verbatim>\<open>history$\<close> that
  \<^verbatim>\<open>_.matches({action: actmeta.id})\<close> accepts.\<close>

definition repeat_count :: "jsval list \<Rightarrow> string \<Rightarrow> nat" where
  "repeat_count history aid = length (filter (\<lambda>e. jsprop e ''action'' = JStr aid) history)"

text \<open>
  \<^verbatim>\<open>executable_action\<close> (lines 1245--1320). With metadata, a non-empty
  \<^verbatim>\<open>history$\<close> array is checked against \<^verbatim>\<open>strict.maxloop\<close>. Without
  metadata the call ends here: with \<^verbatim>\<open>default$\<close> when that is a plain object or an
  array, else with an error, or in \<open>die\<close> when \<^verbatim>\<open>fatal$\<close> is truthy. The first
  component is the function's result: whether the action is to be executed. Of the details
  of the errors, the renderings of the message by \<^verbatim>\<open>Util.inspect\<close> (\<^verbatim>\<open>args\<close>) are
  left out, and that of \<^verbatim>\<open>default$\<close> is its string.
\<close>

definition executable_action ::
  "options \<Rightarrow> frame \<Rightarrow> inst \<Rightarrow> seneca_state \<Rightarrow> bool \<times> seneca_state" where
  "executable_action so fr act_instance st =
     (case f_actmeta fr of
        Some am \<Rightarrow>
          (case get (f_args fr) ''history$'' of
             JArr history \<Rightarrow>
               if 0 < length history then
                 (if strict_maxloop so < int (repeat_count history (am_id am))
                  then (False,
                        act_done so fr
                          [internals_error ''act_loop''
                             [(''pattern'', JStr (am_pattern am)), (''history'', JArr history)]] st)
                  else (True, st))
               else (True, st)
           | _ \<Rightarrow> (True, st))
      | None \<Rightarrow>
          (let dflt = get (f_args fr) ''default$'' in
           if isPlainObject dflt \<or> isArray dflt
           then (False, act_done so fr [JNull, dflt] (emit_log ''act'' ''DEFAULT'' st))
           else
             (let err = internals_error
                          (if \<not> isUndefined dflt then ''act_default_bad'' else ''act_not_found'')
                          (if \<not> isUndefined dflt then [(''xdefault'', JStr (to_string dflt))] else [])
              in if truthy (get (f_args fr) ''fatal$'') then (False, die so err st)
                 else (False,
                       act_done so fr [err]
                         (if trace_unknown so then emit_log ''act'' ''UNKNOWN'' st else st)))))"

text \<open>\<^verbatim>\<open>validate_action_message\<close> (lines 1533--1555): the error to complete the call
  with, if the metadata has a validator and it rejects the message.\<close>

definition validate_action_message :: "options \<Rightarrow> jsobj \<Rightarrow> actmeta \<Rightarrow> jsval option" where
  "validate_action_message so msg am =
     (case am_validate am of
        None \<Rightarrow> None
      | Some v \<Rightarrow>
          if \<not> truthy (v msg) then None
          else Some (internals_error
                       (if legacy_error_codes so then ''act_invalid_args'' else ''act_invalid_msg'')
                       [(''pattern'', JStr (am_pattern am)),
                        (''message'', jsprop (v msg) ''message''),
                        (''msg'', JObj Plain (clean msg))]))"

text \<open>
  \<^verbatim>\<open>act_make_delegate\<close> (lines 1461--1525): the delegate of the call, with the plugin
  and the transaction among its fixed arguments. Its \<^verbatim>\<open>prior\<close> function is
  \<open>delegate_prior\<close> below.
\<close>

definition act_make_delegate :: "options \<Rightarrow> inst \<Rightarrow> jsval \<Rightarrow> actmeta \<Rightarrow> inst" where
  "act_make_delegate so instance tx am =
     (let delegate =
            api_delegate so instance
              [(''plugin$'', JObj Plain [(''name'', am_plugin_name am), (''tag'', am_plugin_tag am)])]
      in if truthy tx then delegate\<lparr>fixedargs := put (fixedargs delegate) ''tx$'' tx\<rparr>
         else delegate)"

text \<open>The object \<^verbatim>\<open>callargs.meta$\<close> (lines 1032--1043), without the start time.\<close>

definition make_meta :: "frame \<Rightarrow> actmeta \<Rightarrow> jsval" where
  "make_meta fr am =
     JObj Plain
       [(''id'', JStr (f_actid fr)),
        (''tx'', f_tx fr),
        (''pattern'', JStr (am_pattern am)),
        (''action'', JStr (am_id am)),
        (''entry'', JBool (entry (f_prior_ctxt fr))),
        (''chain'', JArr (map JStr (chain (f_prior_ctxt fr)))),
        (''sync'', JBool (f_is_sync fr)),
        (''plugin_name'', am_plugin_name am),
        (''plugin_tag'', am_plugin_tag am)]"

text \<open>
  The call message (lines 1029--1059): \<^verbatim>\<open>id$\<close> and \<^verbatim>\<open>actid$\<close> are deleted
  from the message and \<^verbatim>\<open>meta$\<close> is set (this is still the object
  \<^verbatim>\<open>args\<close>); then \<^verbatim>\<open>callargs\<close> becomes a new object: that message, the
  fixed arguments of the call's delegate written over it, and \<^verbatim>\<open>tx$\<close>. The result
  gives \<^verbatim>\<open>args\<close> and \<^verbatim>\<open>callargs\<close>.
\<close>

definition call_message :: "options \<Rightarrow> inst \<Rightarrow> frame \<Rightarrow> actmeta \<Rightarrow> jsobj \<times> jsobj" where
  "call_message so act_instance fr am =
     (let args1 = put (del (del (f_args fr) ''id$'') ''actid$'') ''meta$'' (make_meta fr am);
          delegate = act_make_delegate so act_instance (f_tx fr) am
      in (args1,
          extend_obj (extend_obj (extend_obj [] args1) (fixedargs delegate))
            [(''tx$'', f_tx fr)]))"

text \<open>
  \<^verbatim>\<open>execute_action\<close> (lines 1011--1091), the task that the gate runs, together with
  the \<^verbatim>\<open>catch\<close> of the task (lines 1228--1231) that completes the call with an
  exception thrown on the way. The metadata is the one \<^verbatim>\<open>do_act\<close> was given, else
  the one the router finds for the message.
\<close>

definition execute_action :: "options \<Rightarrow> frame \<Rightarrow> inst \<Rightarrow> seneca_state \<Rightarrow> seneca_state" where
  "execute_action so fr0 act_instance st =
     (let actmeta = (case f_actmeta fr0 of
                       Some am \<Rightarrow> Some am
                     | None \<Rightarrow> find_action st (f_args fr0));
          fr = fr0\<lparr>f_actmeta := actmeta\<rparr>
      in case executable_action so fr act_instance st of
           (False, st1) \<Rightarrow> st1
         | (True, st1) \<Rightarrow>
             (case actmeta of
                None \<Rightarrow> st1
              | Some am \<Rightarrow>
                  (case validate_action_message so (f_args fr) am of
                     Some err \<Rightarrow> act_done so fr [err] st1
                   | None \<Rightarrow>
                       (case call_message so act_instance fr am of
                          (args1, callargs) \<Rightarrow>
                            (let st2 = act_stats_call (am_pattern am) st1;
                                 st3 = (if truthy (am_deprecate am)
                                        then emit_log ''act'' ''DEPRECATED'' st2 else st2);
                                 st4 = (if \<not> am_sub am then emit_log ''act'' ''IN'' st3 else st3);
                                 st5 = st4\<lparr>trace := trace st4 @
                                              [EvEmit ''act-in'' callargs JUndefined]\<rparr>
                             in case emit_subs ''in$'' callargs JUndefined st5 of
                                  (Some ex, callargs', st6) \<Rightarrow>
                                    act_done so
                                      (fr\<lparr>f_args := args1, f_callargs := callargs',
                                          f_actstats := Some (am_pattern am)\<rparr>) [ex] st6
                                | (None, callargs', st6) \<Rightarrow>
                                    (let fr1 = fr\<lparr>f_args := args1, f_callargs := callargs',
                                                 f_actstats := Some (am_pattern am)\<rparr>
                                     in if closed st6 \<and> \<not> truthy (get callargs' ''closing$'')
                                        then act_done so fr1
                                               [internals_error ''instance-closed''
                                                  [(''args'', JObj Plain (clean callargs'))]] st6
                                        else
                                          (case am_func am callargs' of
                                             Done res \<Rightarrow>
                                               act_done so fr1 res
                                                 (st6\<lparr>trace := trace st6 @
                                                         [EvHandler (am_id am) callargs']\<rparr>)
                                           | Throw ex \<Rightarrow>
                                               act_done so fr1 [ex]
                                                 (st6\<lparr>trace := trace st6 @
                                                         [EvHandler (am_id am) callargs']\<rparr>)
                                           | NoReply \<Rightarrow>
                                               st6\<lparr>trace := trace st6 @
                                                      [EvHandler (am_id am) callargs']\<rparr>)))))))"

text \<open>\<^verbatim>\<open>v || instance.idgen()\<close>: an identifier is drawn only when \<open>v\<close> is falsy.\<close>

definition or_idgen :: "jsval \<Rightarrow> seneca_state \<Rightarrow> jsval \<times> seneca_state" where
  "or_idgen v st = (if truthy v then (v, st) else (case idgen st of (i, st') \<Rightarrow> (JStr i, st')))"

definition type_error :: jsval where
  "type_error = JObj ErrorObj [(''name'', JStr ''TypeError'')]"

text \<open>
  The identifiers of a call (lines 992--998): \<^verbatim>\<open>args.id$ || args.actid$ ||
  idgen()\<close> is split at \<^verbatim>\<open>/\<close>, which throws a \<^verbatim>\<open>TypeError\<close> when the
  value is truthy and not a string; the transaction is \<^verbatim>\<open>id_tx[1] || origargs.tx$ ||
  instance.fixedargs.tx$ || idgen()\<close> and the action id is \<^verbatim>\<open>(id_tx[0] || idgen())
  + '/' + tx\<close>. The result is the exception, or the action id, the transaction and the state
  after the identifiers were drawn.
\<close>

definition act_ids ::
  "inst \<Rightarrow> jsobj \<Rightarrow> seneca_state \<Rightarrow> jsval + (string \<times> jsval \<times> seneca_state)" where
  "act_ids instance origargs st =
     (case or_idgen (or_js (get origargs ''id$'') (get origargs ''actid$'')) st of
        (JStr ids, st1) \<Rightarrow>
          (case or_idgen (or_js (at_index (split_on CHR ''/'' ids) 1)
                            (or_js (get origargs ''tx$'') (get (fixedargs instance) ''tx$''))) st1 of
             (tx, st2) \<Rightarrow>
               (case or_idgen (at_index (split_on CHR ''/'' ids) 0) st2 of
                  (id0, st3) \<Rightarrow> Inr (to_string id0 @ ''/'' @ to_string tx, tx, st3)))
      | (v, st1) \<Rightarrow> Inl type_error)"

text \<open>Line 1001: \<^verbatim>\<open>args.default$ = args.default$ || (!so.strict.find ? {} :
  args.default$)\<close>.\<close>

definition with_default :: "options \<Rightarrow> jsobj \<Rightarrow> jsobj" where
  "with_default so args =
     put args ''default$''
       (or_js (get args ''default$'')
          (if \<not> strict_find so then JObj Plain [] else get args ''default$''))"

text \<open>
  \<^verbatim>\<open>do_act\<close> (lines 985--1243). The gate executor runs the task at once (its queue
  and timer are outside the model). The result is the exception that leaves
  \<^verbatim>\<open>do_act\<close>, or the state after the call.
\<close>

definition do_act ::
  "options \<Rightarrow> inst \<Rightarrow> actmeta option \<Rightarrow> prior_ctxt option \<Rightarrow> jsobj \<Rightarrow> continuation
     \<Rightarrow> seneca_state \<Rightarrow> jsval + seneca_state" where
  "do_act so instance actmeta prior_ctxt0 origargs actdone st =
     (case act_ids instance origargs st of
        Inl ex \<Rightarrow> Inl ex
      | Inr (actid, tx, st3) \<Rightarrow>
          (let args = with_default so origargs;
               fr = \<lparr>f_instance = instance, f_args = args, f_callargs = args,
                     f_origargs = origargs, f_actmeta = actmeta, f_actstats = None,
                     f_prior_ctxt = (case prior_ctxt0 of
                                       None \<Rightarrow> \<lparr>chain = [], entry = True, depth = 1\<rparr>
                                     | Some c \<Rightarrow> c),
                     f_actid = actid,
                     f_tx = tx,
                     f_is_sync = (case actdone of None \<Rightarrow> False | Some cb \<Rightarrow> True),
                     f_actdone = actdone\<rparr>
           in case apply_actcache so args actdone st3 of
                (True, st4) \<Rightarrow> Inr st4
              | (False, st4) \<Rightarrow>
                  Inr (execute_action so fr
                         (if truthy (get args ''gate$'')
                          then api_delegate so instance [] else instance) st4)))"

text \<open>\<^verbatim>\<open>api_act\<close> (lines 834--851), from the parsed message: the fixed arguments of
  the instance are written over the message, which goes to \<open>do_act\<close>. (The debug option
  \<^verbatim>\<open>act_caller\<close> is left out.)\<close>

definition api_act ::
  "options \<Rightarrow> inst \<Rightarrow> jsobj \<Rightarrow> continuation \<Rightarrow> seneca_state \<Rightarrow> jsval + seneca_state" where
  "api_act so self args actdone st =
     do_act so self None None (extend_obj args (fixedargs self)) actdone st"

text \<open>
  \<^verbatim>\<open>delegate.prior\<close> (lines 1483--1522), the function that \<open>act_make_delegate\<close>
  installs on the delegate of a call: \<open>tx\<close>, \<open>callargs\<close>, \<open>am\<close> and \<open>pc\<close> are the
  transaction, the call message, the metadata and the context of that call. Without a prior
  the continuation is called with \<^verbatim>\<open>default$\<close> or null.
\<close>

definition delegate_prior ::
  "options \<Rightarrow> inst \<Rightarrow> jsval \<Rightarrow> jsobj \<Rightarrow> actmeta \<Rightarrow> prior_ctxt \<Rightarrow> jsobj \<Rightarrow> continuation
     \<Rightarrow> seneca_state \<Rightarrow> jsval + seneca_state" where
  "delegate_prior so delegate tx callargs am pc prior_args prior_cb st =
     (case am_priormeta am of
        Some pm \<Rightarrow>
          (let sub_prior_ctxt = pc\<lparr>chain := chain pc @ [am_id am], entry := False,
                                   depth := depth pc + 1\<rparr>;
               a1 = del (del (del (del (del prior_args ''id$'') ''gate$'') ''actid$'') ''meta$'')
                        ''transport$'';
               a2 = (if truthy (get callargs ''default$'')
                     then put a1 ''default$'' (get callargs ''default$'') else a1);
               a3 = put a2 ''tx$'' tx
           in do_act so delegate (Some pm) (Some sub_prior_ctxt) a3 prior_cb st)
      | None \<Rightarrow>
          (case prior_cb of
             None \<Rightarrow> Inl type_error
           | Some cb \<Rightarrow>
               (let out = (if truthy (get callargs ''default$'') then get callargs ''default$''
                           else JNull)
                in case cb [JNull, out] of
                     None \<Rightarrow> Inr (st\<lparr>trace := trace st @ [EvCallback False [JNull, out]]\<rparr>)
                   | Some ex \<Rightarrow> Inl ex)))"

section \<open>Reading a trace\<close>

text \<open>The calls of handlers (action id and call message), of continuations (deferred or
  not, and the argument list), of subscribers, of the error handler and of \<open>die\<close>, and
  the errors emitted as \<^verbatim>\<open>act-err\<close>, in the order of the trace.\<close>

fun handler_calls :: "event list \<Rightarrow> (string \<times> jsobj) list" where
  "handler_calls [] = []"
| "handler_calls (EvHandler a m # es) = (a, m) # handler_calls es"
| "handler_calls (e # es) = handler_calls es"

fun callbacks :: "event list \<Rightarrow> (bool \<times> jsval list) list" where
  "callbacks [] = []"
| "callbacks (EvCallback d r # es) = (d, r) # callbacks es"
| "callbacks (e # es) = callbacks es"

fun sub_calls :: "event list \<Rightarrow> (string \<times> jsobj \<times> jsval) list" where
  "sub_calls [] = []"
| "sub_calls (EvSub n m r # es) = (n, m, r) # sub_calls es"
| "sub_calls (e # es) = sub_calls es"

fun errhandler_calls :: "event list \<Rightarrow> jsval list" where
  "errhandler_calls [] = []"
| "errhandler_calls (EvErrHandler e # es) = e # errhandler_calls es"
| "errhandler_calls (e # es) = errhandler_calls es"

fun dies :: "event list \<Rightarrow> jsval list" where
  "dies [] = []"
| "dies (EvDie e # es) = e # dies es"
| "dies (e # es) = dies es"

fun act_errs :: "event list \<Rightarrow> jsval list" where
  "act_errs [] = []"
| "act_errs (EvEmit n m e # es) = (if n = ''act-err'' then e # act_errs es else act_errs es)"
| "act_errs (e # es) = act_errs es"

fun sub_error_logs :: "event list \<Rightarrow> jsval list" where
  "sub_error_logs [] = []"
| "sub_error_logs (EvLogError k e # es) =
     (if k = ''sub'' then e # sub_error_logs es else sub_error_logs es)"
| "sub_error_logs (e # es) = sub_error_logs es"

text \<open>The calls of a prior's \<^verbatim>\<open>handle\<close> function: the id of the prior and the
  pattern it is given.\<close>

fun handle_calls :: "event list \<Rightarrow> (string \<times> jsobj) list" where
  "handle_calls [] = []"
| "handle_calls (EvHandle a p # es) = (a, p) # handle_calls es"
| "handle_calls (e # es) = handle_calls es"

section \<open>An example instance\<close>

text \<open>The default options (\<^verbatim>\<open>internals.defaults\<close>, lines 54--192), the private state
  of a new instance (\<^verbatim>\<open>make_private\<close>, with empty routers and cache) drawing the
  identifiers \<^verbatim>\<open>id0\<close>, \<^verbatim>\<open>id1\<close>, ..., and the root instance.\<close>

definition default_options :: options where
  "default_options =
     \<lparr>strict_result = True, strict_fixedargs = True, strict_add = False, strict_find = True,
      strict_maxloop = 11, actcache_active = True, actcache_size = 11111,
      internal_catchall = False, trace_unknown = True, legacy_error_codes = True,
      errhandler = None\<rparr>"

definition new_state :: seneca_state where
  "new_state =
     \<lparr>actrouter = [], subrouter = [], actcache = [],
      stats = \<lparr>n_calls = 0, n_done = 0, n_fails = 0, n_cache = 0\<rparr>,
      stats_actmap = [], action_modifiers = [], handle_sub_installed = False,
      closed = False, dead = False,
      nid = (\<lambda>n. ''id'' @ string_of_nat n), nid_next = 0, trace = []\<rparr>"

definition root_instance :: inst where
  "root_instance = \<lparr>fixedargs = []\<rparr>"

definition no_meta :: meta_in where
  "no_meta = \<lparr>m_plugin_name = JUndefined, m_plugin_tag = JUndefined,
              m_plugin_fullname = JUndefined\<rparr>"

text \<open>An action that answers with the message's \<^verbatim>\<open>x\<close> under \<^verbatim>\<open>a\<close>, and one
  that fails with an error of its own.\<close>

definition echo_action :: action where
  "echo_action =
     \<lparr>afunc = (\<lambda>msg. Done [JNull, JObj Plain [(''a'', get msg ''x'')]]),
      avalidate = None, ahandle = False\<rparr>"

definition failing_action :: action where
  "failing_action =
     \<lparr>afunc = (\<lambda>msg. Done [JObj ErrorObj [(''message'', JStr ''boom'')]]),
      avalidate = None, ahandle = False\<rparr>"

section \<open>Notions used in the statements\<close>

text \<open>The events of one subscriber call inside \<^verbatim>\<open>handle_sub\<close>: the call, and the log entry when it throws.\<close>

definition sub_events :: "jsobj \<Rightarrow> jsval \<Rightarrow> subfunc \<Rightarrow> event list" where
  "sub_events args result sf =
     EvSub (fst sf) args result #
       (case snd sf args result of
          None \<Rightarrow> []
        | Some ex \<Rightarrow> [EvLogError ''sub'' (internals_error_ex ex ''sub_function_catch'' [])])"

text \<open>Events among which there is no handler call, no continuation call, no error-handler call, no \<open>die\<close> and no \<^verbatim>\<open>act-err\<close>.\<close>

definition quiet :: "event list \<Rightarrow> bool" where
  "quiet evs \<longleftrightarrow> handler_calls evs = [] \<and> callbacks evs = [] \<and> errhandler_calls evs = [] \<and>
     dies evs = [] \<and> act_errs evs = []"

text \<open>
  The subscriber calls of a listener of \<^verbatim>\<open>api_sub\<close> for an emitted message: with the
  listeners installed and \<^verbatim>\<open>meta$.entry\<close> equal to \<^verbatim>\<open>true\<close>, one call for
  each member of the list that the subscription router finds for the message, with the
  message the subscriber receives and the result.
\<close>

definition fired ::
  "seneca_state \<Rightarrow> string \<Rightarrow> jsobj \<Rightarrow> jsval \<Rightarrow> (subfunc \<times> jsobj \<times> jsval) list" where
  "fired st pr m r =
     (let args = put m pr (JBool True);
          meta = or_js (get args ''meta$'') (JObj Plain []);
          args1 = put args ''meta$'' meta
      in if handle_sub_installed st \<and> jsprop meta ''entry'' = JBool True
         then (case router_find (subrouter st) args1 of
                 None \<Rightarrow> []
               | Some sl \<Rightarrow>
                   map (\<lambda>sf. (sf, put args1 ''meta$''
                                    (set_prop meta ''sub'' (JStr (subs_pattern sl))), r))
                       (subs_funcs sl))
         else [])"

text \<open>The events of \<open>die\<close>.\<close>

definition die_events :: "options \<Rightarrow> jsval \<Rightarrow> event list" where
  "die_events so err =
     [EvDie err, EvEmit ''error'' [] err] @
       (case errhandler so of Some h \<Rightarrow> [EvErrHandler err] | None \<Rightarrow> [])"

text \<open>The error \<open>callback_error\<close> reports for an exception of the continuation.\<close>

definition cb_error_of :: "jsval \<Rightarrow> actmeta option \<Rightarrow> jsval" where
  "cb_error_of ex am =
     (if \<not> truthy (jsprop ex ''seneca'')
      then internals_error_ex ex ''act_callback''
             [(''pattern'', case am of None \<Rightarrow> JUndefined | Some a \<Rightarrow> JStr (am_pattern a))]
      else ex)"

text \<open>The events of \<open>callback_error\<close>.\<close>

definition cb_error_events :: "options \<Rightarrow> jsval \<Rightarrow> actmeta option \<Rightarrow> jsobj \<Rightarrow> event list" where
  "cb_error_events so ex am callargs =
     [EvLogError ''act'' (cb_error_of ex am), EvEmit ''act-err'' callargs (cb_error_of ex am)] @
     (case errhandler so of None \<Rightarrow> [] | Some h \<Rightarrow> [EvErrHandler (cb_error_of ex am)])"

text \<open>The events that follow the call of the continuation: those of \<open>callback_error\<close> when it throws.\<close>

definition cont_events :: "options \<Rightarrow> frame \<Rightarrow> jsval list \<Rightarrow> event list" where
  "cont_events so fr r =
     (case f_actdone fr of
        None \<Rightarrow> []
      | Some cb \<Rightarrow>
          (case cb r of
             None \<Rightarrow> []
           | Some ex \<Rightarrow> cb_error_events so (format_thrown ex) (f_actmeta fr) (f_callargs fr)))"

text \<open>The call of the error handler in \<open>act_error\<close>, which is skipped when the call message carries a truthy \<^verbatim>\<open>fatal$\<close>.\<close>

definition eh_events :: "options \<Rightarrow> jsobj \<Rightarrow> jsval \<Rightarrow> event list" where
  "eh_events so callargs e =
     (case errhandler so of
        Some h \<Rightarrow> if \<not> truthy (get callargs ''fatal$'') then [EvErrHandler e] else []
      | None \<Rightarrow> [])"

text \<open>The error handler was called and answered with a truthy value.\<close>

definition consumed :: "options \<Rightarrow> jsobj \<Rightarrow> jsval \<Rightarrow> bool" where
  "consumed so callargs e =
     (case errhandler so of
        Some h \<Rightarrow> \<not> truthy (get callargs ''fatal$'') \<and> truthy (h e)
      | None \<Rightarrow> False)"

text \<open>The metadata of a dispatch: the one given to \<^verbatim>\<open>do_act\<close>, else the one the router finds.\<close>

definition resolve :: "seneca_state \<Rightarrow> actmeta option \<Rightarrow> jsobj \<Rightarrow> actmeta option" where
  "resolve st actmeta args = (case actmeta of Some am \<Rightarrow> Some am | None \<Rightarrow> find_action st args)"

text \<open>The loop check of \<open>executable_action\<close> fails the call.\<close>

definition loops :: "options \<Rightarrow> jsobj \<Rightarrow> actmeta \<Rightarrow> bool" where
  "loops so args am =
     (case get args ''history$'' of
        JArr history \<Rightarrow> 0 < length history \<and> strict_maxloop so < int (repeat_count history (am_id am))
      | _ \<Rightarrow> False)"

text \<open>The error of the loop check.\<close>

definition loop_error :: "jsobj \<Rightarrow> actmeta \<Rightarrow> jsval" where
  "loop_error args am =
     internals_error ''act_loop''
       [(''pattern'', JStr (am_pattern am)), (''history'', get args ''history$'')]"

text \<open>The error of \<open>executable_action\<close> when no action is found, from the value of \<^verbatim>\<open>default$\<close>.\<close>

definition notfound_error :: "jsval \<Rightarrow> jsval" where
  "notfound_error dflt =
     internals_error (if \<not> isUndefined dflt then ''act_default_bad'' else ''act_not_found'')
       (if \<not> isUndefined dflt then [(''xdefault'', JStr (to_string dflt))] else [])"

text \<open>The caller's identifier \<^verbatim>\<open>id$ || actid$\<close>.\<close>

definition given_id :: "jsobj \<Rightarrow> jsval" where
  "given_id msg = or_js (get msg ''id$'') (get msg ''actid$'')"

text \<open>The caller's identifier is a string, or falsy (then one is drawn): \<open>act_ids\<close> does not throw.\<close>

definition id_ok :: "jsobj \<Rightarrow> bool" where
  "id_ok msg = (case given_id msg of JStr s \<Rightarrow> True | v \<Rightarrow> \<not> truthy v)"

text \<open>The cache entry that \<open>apply_actcache\<close> replays for a message, if any.\<close>

definition cache_lookup :: "options \<Rightarrow> jsobj \<Rightarrow> seneca_state \<Rightarrow> cache_entry option" where
  "cache_lookup so msg st =
     (if actcache_active so
      then (case given_id msg of JStr k \<Rightarrow> map_of (actcache st) k | v \<Rightarrow> None)
      else None)"

text \<open>The variables of \<^verbatim>\<open>do_act\<close> when the task starts.\<close>

definition frame_of ::
  "options \<Rightarrow> inst \<Rightarrow> actmeta option \<Rightarrow> prior_ctxt option \<Rightarrow> jsobj \<Rightarrow> continuation \<Rightarrow> string \<Rightarrow> jsval
     \<Rightarrow> frame" where
  "frame_of so inst actmeta pc0 msg cb actid tx =
     \<lparr>f_instance = inst, f_args = with_default so msg, f_callargs = with_default so msg,
      f_origargs = msg, f_actmeta = actmeta, f_actstats = None,
      f_prior_ctxt = (case pc0 of None \<Rightarrow> \<lparr>chain = [], entry = True, depth = 1\<rparr> | Some c \<Rightarrow> c),
      f_actid = actid, f_tx = tx,
      f_is_sync = (case cb of None \<Rightarrow> False | Some f \<Rightarrow> True),
      f_actdone = cb\<rparr>"

text \<open>The instance the task runs on: a delegate when the message carries a truthy \<^verbatim>\<open>gate$\<close>.\<close>

definition exec_inst :: "options \<Rightarrow> inst \<Rightarrow> jsobj \<Rightarrow> inst" where
  "exec_inst so inst msg =
     (if truthy (get (with_default so msg) ''gate$'') then api_delegate so inst [] else inst)"

text \<open>Two states that agree on the cache, the routers, the flags, the replay counter and the
  identifiers; and two traces with the same continuation calls.\<close>

definition same_core :: "seneca_state \<Rightarrow> seneca_state \<Rightarrow> bool" where
  "same_core st S \<longleftrightarrow>
     actcache S = actcache st \<and> actrouter S = actrouter st \<and> subrouter S = subrouter st \<and>
     handle_sub_installed S = handle_sub_installed st \<and> closed S = closed st \<and>
     n_cache (stats S) = n_cache (stats st) \<and> nid S = nid st \<and> nid_next S = nid_next st"

text \<open>An action with a \<^verbatim>\<open>handle\<close> function, as the one of
  \<^verbatim>\<open>seneca.close\<close>.\<close>

definition handled_action :: action where
  "handled_action =
     \<lparr>afunc = (\<lambda>msg. Done [JNull, JObj Plain []]), avalidate = None, ahandle = True\<rparr>"

text \<open>The example instance after \<^verbatim>\<open>add({role: 'x'}, echo)\<close>, and after
  \<^verbatim>\<open>add({role: 'x'}, handled)\<close>.\<close>

definition pattern_x :: jsobj where
  "pattern_x = [(''role'', JStr ''x'')]"

definition state_echo :: seneca_state where
  "state_echo =
     (case api_add default_options root_instance pattern_x (Some echo_action) no_meta new_state of
        Inr st \<Rightarrow> st
      | Inl e \<Rightarrow> new_state)"

definition state_handled :: seneca_state where
  "state_handled =
     (case api_add default_options root_instance pattern_x (Some handled_action) no_meta new_state of
        Inr st \<Rightarrow> st
      | Inl e \<Rightarrow> new_state)"

text \<open>Two subscribers, one that returns and one that throws, and the example instance after
  both subscribed to \<^verbatim>\<open>{role: 'x'}\<close>.\<close>

definition calm_sub :: subfunc where
  "calm_sub = (''calm'', \<lambda>args result. None)"

definition throwing_sub :: subfunc where
  "throwing_sub = (''throwing'', \<lambda>args result. Some (JStr ''oops''))"

definition state_subs :: seneca_state where
  "state_subs = api_sub pattern_x calm_sub (api_sub pattern_x throwing_sub state_echo)"

text \<open>The example instance after \<^verbatim>\<open>sub({role: 'x', x: 1}, throwing)\<close> and then
  \<^verbatim>\<open>sub({role: 'x'}, calm)\<close>; the same after the second subscription alone; and the
  example instance after \<^verbatim>\<open>sub({role: 'x'}, throwing)\<close> and then
  \<^verbatim>\<open>sub({role: 'x', x: 1}, calm)\<close>.\<close>

definition state_shadowed :: seneca_state where
  "state_shadowed =
     api_sub pattern_x calm_sub
       (api_sub [(''role'', JStr ''x''), (''x'', JNum 1)] throwing_sub state_echo)"

definition state_calm :: seneca_state where
  "state_calm = api_sub pattern_x calm_sub state_echo"

definition state_filed :: seneca_state where
  "state_filed =
     api_sub [(''role'', JStr ''x''), (''x'', JNum 1)] calm_sub
       (api_sub pattern_x throwing_sub state_echo)"

text \<open>The state after \<^verbatim>\<open>act\<close>, for the examples: the state is left as it is when
  the call throws.\<close>

definition after_act ::
  "options \<Rightarrow> inst \<Rightarrow> jsobj \<Rightarrow> continuation \<Rightarrow> seneca_state \<Rightarrow> seneca_state" where
  "after_act so self msg cb st = (case api_act so self msg cb st of Inr st' \<Rightarrow> st' | Inl e \<Rightarrow> st)"

text \<open>The options with \<^verbatim>\<open>strict.fixedargs\<close> off, an instance with the fixed
  argument \<^verbatim>\<open>x: 2\<close>, and a message that carries \<^verbatim>\<open>x: 1\<close>.\<close>

definition loose_options :: options where
  "loose_options = default_options\<lparr>strict_fixedargs := False\<rparr>"

definition fixed_instance :: inst where
  "fixed_instance = \<lparr>fixedargs = [(''x'', JNum 2)]\<rparr>"

definition message_x1 :: jsobj where
  "message_x1 = [(''role'', JStr ''x''), (''x'', JNum 1)]"

text \<open>A message for the subscribers of \<open>state_subs\<close>, as the \<^verbatim>\<open>act-in\<close> listener
  passes it on an entry call.\<close>

definition message_in :: jsobj where
  "message_in = [(''role'', JStr ''x''), (''meta$'', JObj Plain [(''entry'', JBool True)]),
                 (''in$'', JBool True)]"

text \<open>The default options with an error handler that consumes every error, the example
  instance after \<^verbatim>\<open>add({role: 'x'}, failing)\<close>, the variables of a call of that
  action with the message \<^verbatim>\<open>{role: 'x'}\<close>, the same with \<^verbatim>\<open>fatal$: true\<close>,
  and the error the action answers with.\<close>

definition consuming_options :: options where
  "consuming_options = default_options\<lparr>errhandler := Some (\<lambda>err. JBool True)\<rparr>"

definition state_failing :: seneca_state where
  "state_failing =
     (case api_add default_options root_instance pattern_x (Some failing_action) no_meta new_state of
        Inr st \<Rightarrow> st
      | Inl e \<Rightarrow> new_state)"

definition frame_x :: frame where
  "frame_x =
     (frame_of consuming_options root_instance None None pattern_x None ''a/t'' (JStr ''t''))
       \<lparr>f_actmeta := find_action state_failing pattern_x\<rparr>"

definition frame_x_fatal :: frame where
  "frame_x_fatal =
     (frame_of consuming_options root_instance None None
        (pattern_x @ [(''fatal$'', JBool True)]) None ''a/t'' (JStr ''t''))
       \<lparr>f_actmeta := find_action state_failing pattern_x\<rparr>"

definition boom :: jsval where
  "boom = JObj ErrorObj [(''message'', JStr ''boom'')]"

text \<open>The default options with \<^verbatim>\<open>strict.find\<close> off, and a message that no pattern of
  the examples matches, with a \<^verbatim>\<open>default$\<close>.\<close>

definition lenient_options :: options where
  "lenient_options = default_options\<lparr>strict_find := False\<rparr>"

definition message_nope :: "jsval \<Rightarrow> jsobj" where
  "message_nope d = [(''role'', JStr ''nope''), (''default$'', d)]"

text \<open>The state after \<^verbatim>\<open>do_act\<close>, or the one before when it throws.\<close>

definition after_do_act ::
  "options \<Rightarrow> inst \<Rightarrow> actmeta option \<Rightarrow> prior_ctxt option \<Rightarrow> jsobj \<Rightarrow> continuation
     \<Rightarrow> seneca_state \<Rightarrow> seneca_state" where
  "after_do_act so self actmeta pc0 msg cb st =
     (case do_act so self actmeta pc0 msg cb st of Inr st' \<Rightarrow> st' | Inl e \<Rightarrow> st)"

text \<open>The metadata of the action of \<open>state_echo\<close>, a history that names that action
  \<open>n\<close> times and another one \<open>k\<close> times, a message for the action with that history,
  and the default options with a negative \<^verbatim>\<open>strict.maxloop\<close>.\<close>

definition meta_echo :: actmeta where
  "meta_echo = the (find_action state_echo pattern_x)"

definition history_of :: "nat \<Rightarrow> nat \<Rightarrow> jsval list" where
  "history_of n k =
     replicate n (JObj Plain [(''action'', JStr (am_id meta_echo))]) @
     replicate k (JObj Plain [(''action'', JStr ''other'')])"

definition message_loop :: "nat \<Rightarrow> nat \<Rightarrow> jsobj" where
  "message_loop n k = [(''role'', JStr ''x''), (''history$'', JArr (history_of n k))]"

definition negative_options :: options where
  "negative_options = default_options\<lparr>strict_maxloop := - 1\<rparr>"

text \<open>The example instance after a second \<^verbatim>\<open>add({role: 'x'}, failing)\<close> over the
  echo action, the metadata of the overriding action and of the overridden one, the context
  of an entry call, and a message for \<^verbatim>\<open>prior\<close> that carries identifiers.\<close>

definition state_over :: seneca_state where
  "state_over =
     (case api_add default_options root_instance pattern_x (Some failing_action) no_meta state_echo of
        Inr st \<Rightarrow> st
      | Inl e \<Rightarrow> state_echo)"

definition meta_over :: actmeta where
  "meta_over = the (find_action state_over pattern_x)"

definition meta_under :: actmeta where
  "meta_under = the (am_priormeta meta_over)"

definition entry_ctxt :: prior_ctxt where
  "entry_ctxt = \<lparr>chain = [], entry = True, depth = 1\<rparr>"

definition message_prior :: jsobj where
  "message_prior =
     [(''role'', JStr ''x''), (''x'', JNum 7), (''id$'', JStr ''a/b''),
      (''meta$'', JObj Plain [(''entry'', JBool True)])]"

text \<open>The state after \<^verbatim>\<open>prior\<close>, or the one before when it throws.\<close>

definition after_prior ::
  "options \<Rightarrow> inst \<Rightarrow> jsval \<Rightarrow> jsobj \<Rightarrow> actmeta \<Rightarrow> prior_ctxt \<Rightarrow> jsobj \<Rightarrow> continuation
     \<Rightarrow> seneca_state \<Rightarrow> seneca_state" where
  "after_prior so delegate tx callargs am pc prior_args prior_cb st =
     (case delegate_prior so delegate tx callargs am pc prior_args prior_cb st of
        Inr st' \<Rightarrow> st'
      | Inl e \<Rightarrow> st)"

text \<open>A message for the echo action that carries the identifier \<open>k\<close> as \<^verbatim>\<open>id$\<close>, and
  the example instance after one call with it.\<close>

definition message_id :: "string \<Rightarrow> jsobj" where
  "message_id k = [(''role'', JStr ''x''), (''x'', JNum 1), (''id$'', JStr k)]"

definition state_once :: "string \<Rightarrow> seneca_state" where
  "state_once k = after_act default_options root_instance (message_id k) None state_echo"

text \<open>What the statements read of an outcome: the keys of the cache, the counter
  \<^verbatim>\<open>act.cache\<close>, the ids of the actions whose handlers were invoked and the calls of
  continuations; nothing when the call threw.\<close>

definition outline ::
  "jsval + seneca_state \<Rightarrow> (string list \<times> nat \<times> string list \<times> (bool \<times> jsval list) list) option" where
  "outline res =
     (case res of
        Inl ex \<Rightarrow> None
      | Inr st \<Rightarrow>
          Some (map fst (actcache st), n_cache (stats st), map fst (handler_calls (trace st)),
                callbacks (trace st)))"

text \<open>The example instance after \<^verbatim>\<open>add({role: 'x'}, echo)\<close> over the failing
  action, the metadata of the overriding action, a delegate that fixes \<^verbatim>\<open>fatal$\<close>, and
  what the statements count of a state: the calls of the error handler, the errors emitted
  as \<^verbatim>\<open>act-err\<close>, the calls of \<open>die\<close>, and the calls of continuations.\<close>

definition state_wrapped :: seneca_state where
  "state_wrapped =
     (case api_add default_options root_instance pattern_x (Some echo_action) no_meta state_failing of
        Inr st \<Rightarrow> st
      | Inl e \<Rightarrow> state_failing)"

definition meta_wrap :: actmeta where
  "meta_wrap = the (find_action state_wrapped pattern_x)"

definition fatal_delegate :: inst where
  "fatal_delegate = \<lparr>fixedargs = [(''fatal$'', JBool True)]\<rparr>"

definition tally :: "seneca_state \<Rightarrow> nat \<times> nat \<times> nat \<times> (bool \<times> jsval list) list" where
  "tally st =
     (length (errhandler_calls (trace st)), length (act_errs (trace st)), length (dies (trace st)),
      callbacks (trace st))"

text \<open>The example instance after \<^verbatim>\<open>add({role: 'x', x: 2}, echo)\<close> next to the echo
  action under \<^verbatim>\<open>{role: 'x'}\<close>, and what the statements read of a handler call: the
  id of the action and the \<^verbatim>\<open>x\<close> of its message.\<close>

definition state_two :: seneca_state where
  "state_two =
     (case api_add default_options root_instance [(''role'', JStr ''x''), (''x'', JNum 2)]
             (Some echo_action) no_meta state_echo of
        Inr st \<Rightarrow> st
      | Inl e \<Rightarrow> state_echo)"

definition routed :: "seneca_state \<Rightarrow> (string \<times> jsval) list" where
  "routed st = map (\<lambda>c. (fst c, get (snd c) ''x'')) (handler_calls (trace st))"

text \<open>The default options with \<^verbatim>\<open>strict.add\<close> on, and a pattern that carries its
  own \<^verbatim>\<open>strict$\<close>.\<close>

definition strict_options :: options where
  "strict_options = default_options\<lparr>strict_add := True\<rparr>"

definition pattern_loose :: jsobj where
  "pattern_loose =
     [(''role'', JStr ''x''), (''x'', JNum 1), (''strict$'', JObj Plain [(''add'', JBool False)])]"

text \<open>The state after \<^verbatim>\<open>add\<close>, or the one before when it throws.\<close>

definition after_add ::
  "options \<Rightarrow> inst \<Rightarrow> jsobj \<Rightarrow> action option \<Rightarrow> meta_in \<Rightarrow> seneca_state \<Rightarrow> seneca_state" where
  "after_add so self raw_pattern action_opt meta st =
     (case api_add so self raw_pattern action_opt meta st of Inr st' \<Rightarrow> st' | Inl e \<Rightarrow> st)"

text \<open>What the statements read of the action found for a message: its pattern, the pattern
  of its prior, and its prior path.\<close>

definition lineage :: "seneca_state \<Rightarrow> jsobj \<Rightarrow> (string \<times> string option \<times> string) option" where
  "lineage st msg =
     map_option (\<lambda>a. (am_pattern a, map_option am_pattern (am_priormeta a), am_priorpath a))
       (find_action st msg)"

text \<open>What the statements read of the subscribers in a state: the names of the subscribers
  called, the number of their logged errors, the \<^verbatim>\<open>meta$.entry\<close> of the handlers'
  messages, and the calls of continuations.\<close>

definition heard :: "seneca_state \<Rightarrow> string list \<times> nat \<times> jsval list \<times> (bool \<times> jsval list) list" where
  "heard st =
     (map fst (sub_calls (trace st)), length (sub_error_logs (trace st)),
      map (\<lambda>c. jsprop (get (snd c) ''meta$'') ''entry'') (handler_calls (trace st)),
      callbacks (trace st))"

section \<open>Lemmas about the model\<close>

lemma get_put: "get (put obj k v) k' = (if k' = k then v else get obj k')"
  by (simp add: get_def put_def update_conv')

lemma get_del: "get (del obj k) k' = (if k' = k then JUndefined else get obj k')"
  by (simp add: get_def del_def delete_conv')

lemma map_of_extend_obj: "map_of (extend_obj a b) = map_of a ++ map_of (rev b)"
proof (induction b arbitrary: a)
  case Nil
  then show ?case by (simp add: extend_obj_def)
next
  case (Cons x xs)
  obtain k v where x: "x = (k, v)" by (cases x)
  have "extend_obj a (x # xs) = extend_obj (put a k v) xs"
    by (simp add: extend_obj_def x)
  then show ?case
    using Cons.IH [of "put a k v"]
    by (auto simp: x put_def update_conv' map_add_def fun_eq_iff split: option.splits)
qed

lemma get_extend_obj:
  "get (extend_obj a b) k = (case map_of (rev b) k of Some v \<Rightarrow> v | None \<Rightarrow> get a k)"
  by (simp add: get_def map_of_extend_obj map_add_def split: option.splits)

lemma map_of_rev_distinct: "distinct (map fst b) \<Longrightarrow> map_of (rev b) = map_of b"
proof (induction b)
  case Nil
  then show ?case by simp
next
  case (Cons x xs)
  obtain k v where x: "x = (k, v)" by (cases x)
  from Cons.prems have "map_of xs k = None"
    by (simp add: x map_of_eq_None_iff)
  moreover from Cons have "map_of (rev xs) = map_of xs" by simp
  ultimately show ?case
    by (auto simp: x map_add_def fun_eq_iff split: option.splits)
qed

lemma clean_put_reserved: "reserved k \<Longrightarrow> clean (put obj k v) = clean obj"
  by (induction obj) (auto simp: clean_def put_def)

lemma clean_del_reserved: "reserved k \<Longrightarrow> clean (del obj k) = clean obj"
  by (induction obj) (auto simp: clean_def del_def)

lemma reserved_names [simp]:
  "reserved ''default$''" "reserved ''id$''" "reserved ''actid$''" "reserved ''meta$''"
  "reserved ''tx$''" "reserved ''gate$''" "reserved ''transport$''"
  by (simp_all add: reserved_def)

lemma find_action_put_reserved:
  "reserved k \<Longrightarrow> find_action st (put msg k v) = find_action st msg"
  by (simp add: find_action_def clean_put_reserved)

lemma handler_calls_append [simp]:
  "handler_calls (xs @ ys) = handler_calls xs @ handler_calls ys"
  by (induction xs rule: handler_calls.induct) simp_all

lemma callbacks_append [simp]: "callbacks (xs @ ys) = callbacks xs @ callbacks ys"
  by (induction xs rule: callbacks.induct) simp_all

lemma sub_calls_append [simp]: "sub_calls (xs @ ys) = sub_calls xs @ sub_calls ys"
  by (induction xs rule: sub_calls.induct) simp_all

lemma errhandler_calls_append [simp]:
  "errhandler_calls (xs @ ys) = errhandler_calls xs @ errhandler_calls ys"
  by (induction xs rule: errhandler_calls.induct) simp_all

lemma dies_append [simp]: "dies (xs @ ys) = dies xs @ dies ys"
  by (induction xs rule: dies.induct) simp_all

lemma act_errs_append [simp]: "act_errs (xs @ ys) = act_errs xs @ act_errs ys"
  by (induction xs rule: act_errs.induct) simp_all

lemma sub_error_logs_append [simp]:
  "sub_error_logs (xs @ ys) = sub_error_logs xs @ sub_error_logs ys"
  by (induction xs rule: sub_error_logs.induct) simp_all

lemma try_sub_eq:
  "try_sub args result sf st = (None, st\<lparr>trace := trace st @ sub_events args result sf\<rparr>)"
  by (simp add: try_sub_def call_sub_def sub_events_def split: option.splits)

lemma each_sub_eq:
  "each_sub args result sfs st =
     (None, st\<lparr>trace := trace st @ concat (map (sub_events args result) sfs)\<rparr>)"
proof (induction sfs arbitrary: st)
  case Nil
  then show ?case by simp
next
  case (Cons sf sfs)
  then show ?case by (simp add: try_sub_eq)
qed

lemma quiet_sub_events:
  "handler_calls (concat (map (sub_events args result) sfs)) = []"
  "callbacks (concat (map (sub_events args result) sfs)) = []"
  "errhandler_calls (concat (map (sub_events args result) sfs)) = []"
  "dies (concat (map (sub_events args result) sfs)) = []"
  "act_errs (concat (map (sub_events args result) sfs)) = []"
  by (induction sfs) (simp_all add: sub_events_def split: option.splits)

lemma quiet_Nil [simp]: "quiet []"
  by (simp add: quiet_def)

lemma quiet_subs [simp]: "quiet (concat (map (sub_events args result) sfs))"
  by (simp add: quiet_def quiet_sub_events)

lemma handle_sub_eq:
  "\<exists>mark evs. handle_sub args result st = (None, mark, st\<lparr>trace := trace st @ evs\<rparr>) \<and> quiet evs"
proof -
  let ?meta = "or_js (get args ''meta$'') (JObj Plain [])"
  let ?args1 = "put args ''meta$'' ?meta"
  have id: "st = st\<lparr>trace := trace st @ []\<rparr>" by simp
  show ?thesis
  proof (cases "jsprop ?meta ''entry'' \<noteq> JBool True")
    case True
    then have "handle_sub args result st = (None, None, st\<lparr>trace := trace st @ []\<rparr>)"
      by (simp add: handle_sub_def Let_def)
    then show ?thesis using quiet_Nil by blast
  next
    case False
    show ?thesis
    proof (cases "router_find (subrouter st) ?args1")
      case None
      with False have "handle_sub args result st = (None, None, st\<lparr>trace := trace st @ []\<rparr>)"
        by (simp add: handle_sub_def Let_def)
      then show ?thesis using quiet_Nil by blast
    next
      case (Some sl)
      with False have "handle_sub args result st =
          (None, Some (subs_pattern sl),
           st\<lparr>trace := trace st @ concat (map (sub_events
              (put ?args1 ''meta$'' (set_prop ?meta ''sub'' (JStr (subs_pattern sl)))) result)
              (subs_funcs sl))\<rparr>)"
        by (simp add: handle_sub_def Let_def each_sub_eq)
      then show ?thesis using quiet_subs by blast
    qed
  qed
qed

lemma jsprop_set_prop:
  "k' \<noteq> k \<Longrightarrow> jsprop (set_prop v k x) k' = jsprop v k'"
  by (cases v) (simp_all add: set_prop_def get_put)

lemma emit_subs_eq:
  "\<exists>callargs' evs. emit_subs pr callargs result st = (None, callargs', st\<lparr>trace := trace st @ evs\<rparr>)
      \<and> quiet evs \<and> (\<forall>k. k \<noteq> ''meta$'' \<longrightarrow> get callargs' k = get callargs k)
      \<and> (\<forall>k. k \<noteq> ''sub'' \<longrightarrow> jsprop (get callargs' ''meta$'') k = jsprop (get callargs ''meta$'') k)"
proof (cases "handle_sub_installed st")
  case False
  then have "emit_subs pr callargs result st = (None, callargs, st\<lparr>trace := trace st @ []\<rparr>)"
    by (simp add: emit_subs_def)
  then show ?thesis using quiet_Nil by blast
next
  case True
  obtain mark evs where h:
    "handle_sub (put callargs pr (JBool True)) result st = (None, mark, st\<lparr>trace := trace st @ evs\<rparr>)"
    "quiet evs"
    using handle_sub_eq by blast
  show ?thesis
  proof (cases mark)
    case None
    with True h have "emit_subs pr callargs result st = (None, callargs, st\<lparr>trace := trace st @ evs\<rparr>)"
      by (simp add: emit_subs_def)
    with h(2) show ?thesis by blast
  next
    case (Some pat)
    let ?c = "if truthy (get callargs ''meta$'')
              then put callargs ''meta$'' (set_prop (get callargs ''meta$'') ''sub'' (JStr pat))
              else callargs"
    from Some True h have "emit_subs pr callargs result st = (None, ?c, st\<lparr>trace := trace st @ evs\<rparr>)"
      by (simp add: emit_subs_def)
    moreover have "\<forall>k. k \<noteq> ''meta$'' \<longrightarrow> get ?c k = get callargs k"
      by (simp add: get_put)
    moreover have "\<forall>k. k \<noteq> ''sub'' \<longrightarrow> jsprop (get ?c ''meta$'') k = jsprop (get callargs ''meta$'') k"
      by (simp add: get_put jsprop_set_prop)
    ultimately show ?thesis using h(2) by blast
  qed
qed

lemmas small_defs = actcache_set_def actcache_alias_def bump_fails_def bump_done_def
  emit_log_def die_def

lemma callback_error_eq:
  "callback_error so ex am result callargs st =
     ((if \<not> truthy (jsprop ex ''seneca'') then set0 (cb_error_of ex am) result else result),
      st\<lparr>trace := trace st @ cb_error_events so ex am callargs\<rparr>)"
  by (simp add: callback_error_def Let_def cb_error_events_def cb_error_of_def split: option.splits)

lemma cb_error_events_proj [simp]:
  "handler_calls (cb_error_events so ex am callargs) = []"
  "callbacks (cb_error_events so ex am callargs) = []"
  "dies (cb_error_events so ex am callargs) = []"
  "sub_calls (cb_error_events so ex am callargs) = []"
  by (simp_all add: cb_error_events_def split: option.splits)

lemma cont_events_proj [simp]:
  "handler_calls (cont_events so fr r) = []"
  "callbacks (cont_events so fr r) = []"
  "dies (cont_events so fr r) = []"
  "sub_calls (cont_events so fr r) = []"
  by (simp_all add: cont_events_def split: option.splits)

lemma call_actdone_trace:
  "trace (call_actdone so fr r st) = trace st @ EvCallback False r # cont_events so fr r"
  by (simp add: call_actdone_def Let_def cont_events_def callback_error_eq small_defs
           split: option.splits)

lemma call_actdone_returns:
  "(case f_actdone fr of None \<Rightarrow> True | Some cb \<Rightarrow> cb r = None) \<Longrightarrow>
     call_actdone so fr r st = st\<lparr>trace := trace st @ [EvCallback False r]\<rparr>"
  by (simp add: call_actdone_def Let_def split: option.splits)

lemma call_actdone_other:
  "actrouter (call_actdone so fr r st) = actrouter st"
  "closed (call_actdone so fr r st) = closed st"
  "stats (call_actdone so fr r st) = stats st"
  "nid (call_actdone so fr r st) = nid st"
  "nid_next (call_actdone so fr r st) = nid_next st"
  "subrouter (call_actdone so fr r st) = subrouter st"
  "handle_sub_installed (call_actdone so fr r st) = handle_sub_installed st"
  "map fst (actcache (call_actdone so fr r st)) = map fst (actcache st)"
  by (auto simp: call_actdone_def Let_def callback_error_def small_defs
           split: option.splits prod.splits)

lemma act_error_eq:
  "act_error so err am result callargs st =
     ((case errhandler so of
         Some h \<Rightarrow> if \<not> truthy (get callargs ''fatal$'') then \<not> truthy (h (format_error err am)) else True
       | None \<Rightarrow> True),
      format_error err am,
      (if \<not> truthy (jsprop err ''seneca'') \<or> is_perm_error err
       then set0 (format_error err am) result else result),
      st\<lparr>trace := trace st @
           [EvLogError ''act'' (format_error err am), EvEmit ''act-err'' callargs (format_error err am)] @
           (case errhandler so of
              Some h \<Rightarrow> if \<not> truthy (get callargs ''fatal$'') then [EvErrHandler (format_error err am)] else []
            | None \<Rightarrow> [])\<rparr>)"
  by (simp add: act_error_def Let_def split: option.splits)

lemma set0_set0 [simp]: "set0 a (set0 b r) = set0 a r"
  by (cases r) simp_all

lemma quiet_proj:
  "quiet evs \<Longrightarrow> handler_calls evs = []"
  "quiet evs \<Longrightarrow> callbacks evs = []"
  "quiet evs \<Longrightarrow> errhandler_calls evs = []"
  "quiet evs \<Longrightarrow> dies evs = []"
  "quiet evs \<Longrightarrow> act_errs evs = []"
  by (simp_all add: quiet_def)

lemma act_done_success:
  assumes "\<not> truthy (result_error so fr result)"
  shows "\<exists>c evs. act_done so fr result st =
           call_actdone so (fr\<lparr>f_callargs := c\<rparr>) (set0 JNull result)
             (bump_done (f_actstats fr) (emit_log ''act'' ''OUT''
                (actcache_alias (f_actid fr) (set0 JNull result)
                   ((actcache_set so (f_actid fr) \<lparr>ce_result = result, ce_actmeta = f_actmeta fr\<rparr> st)
                      \<lparr>trace := trace st @ EvEmit ''act-out'' (f_callargs fr) (arg_at result 1) # evs\<rparr>))))
         \<and> quiet evs"
proof -
  let ?st1 = "actcache_set so (f_actid fr) \<lparr>ce_result = result, ce_actmeta = f_actmeta fr\<rparr> st"
  let ?st1' = "?st1\<lparr>trace := trace ?st1 @ [EvEmit ''act-out'' (f_callargs fr) (arg_at result 1)]\<rparr>"
  obtain c evs where e:
    "emit_subs ''out$'' (f_callargs fr) (arg_at result 1) ?st1' = (None, c, ?st1'\<lparr>trace := trace ?st1' @ evs\<rparr>)"
    "quiet evs"
    using emit_subs_eq by blast
  have t: "trace ?st1 = trace st" by (simp add: small_defs)
  from assms e(1) have "act_done so fr result st =
           call_actdone so (fr\<lparr>f_callargs := c\<rparr>) (set0 JNull result)
             (bump_done (f_actstats fr) (emit_log ''act'' ''OUT''
                (actcache_alias (f_actid fr) (set0 JNull result)
                   (?st1\<lparr>trace := trace st @ EvEmit ''act-out'' (f_callargs fr) (arg_at result 1) # evs\<rparr>))))"
    by (simp add: act_done_def Let_def t)
  with e(2) show ?thesis by blast
qed

lemma act_done_success_proj:
  assumes "\<not> truthy (result_error so fr result)"
  shows "callbacks (trace (act_done so fr result st)) = callbacks (trace st) @ [(False, set0 JNull result)]"
    and "handler_calls (trace (act_done so fr result st)) = handler_calls (trace st)"
    and "dies (trace (act_done so fr result st)) = dies (trace st)"
proof -
  obtain c evs where a: "act_done so fr result st =
           call_actdone so (fr\<lparr>f_callargs := c\<rparr>) (set0 JNull result)
             (bump_done (f_actstats fr) (emit_log ''act'' ''OUT''
                (actcache_alias (f_actid fr) (set0 JNull result)
                   ((actcache_set so (f_actid fr) \<lparr>ce_result = result, ce_actmeta = f_actmeta fr\<rparr> st)
                      \<lparr>trace := trace st @ EvEmit ''act-out'' (f_callargs fr) (arg_at result 1) # evs\<rparr>))))"
    and q: "quiet evs"
    using act_done_success [OF assms] by blast
  show "callbacks (trace (act_done so fr result st)) = callbacks (trace st) @ [(False, set0 JNull result)]"
    by (simp add: a call_actdone_trace small_defs quiet_proj [OF q] split: option.splits)
  show "handler_calls (trace (act_done so fr result st)) = handler_calls (trace st)"
    by (simp add: a call_actdone_trace small_defs quiet_proj [OF q] split: option.splits)
  show "dies (trace (act_done so fr result st)) = dies (trace st)"
    by (simp add: a call_actdone_trace small_defs quiet_proj [OF q] split: option.splits)
qed

lemma small_trace [simp]:
  "trace (bump_fails a st) = trace st"
  "trace (bump_done a st) = trace st"
  "trace (actcache_set so k v st) = trace st"
  "trace (actcache_alias k r st) = trace st"
  "trace (act_stats_call p st) = trace st"
  "trace (emit_log kd cs st) = trace st @ [EvLog kd cs]"
  "trace (die so e st) = trace st @ die_events so e"
  by (simp_all add: small_defs die_events_def act_stats_call_def Let_def split: option.splits)

lemma die_events_proj [simp]:
  "handler_calls (die_events so e) = []"
  "callbacks (die_events so e) = []"
  "dies (die_events so e) = [e]"
  "sub_calls (die_events so e) = []"
  "act_errs (die_events so e) = []"
  "errhandler_calls (die_events so e) = (case errhandler so of Some h \<Rightarrow> [e] | None \<Rightarrow> [])"
  by (simp_all add: die_events_def split: option.splits)

lemma act_done_error:
  assumes "truthy (result_error so fr result)"
  shows "act_done so fr result st =
     (let e = format_error (result_error so fr result) (f_actmeta fr);
          r1 = (if \<not> truthy (jsprop (result_error so fr result) ''seneca'') \<or>
                   is_perm_error (result_error so fr result)
                then set0 e result else result);
          st2 = (bump_fails (f_actstats fr)
                   (actcache_set so (f_actid fr) \<lparr>ce_result = result, ce_actmeta = f_actmeta fr\<rparr> st))
                \<lparr>trace := trace st @ [EvLogError ''act'' e, EvEmit ''act-err'' (f_callargs fr) e] @
                            eh_events so (f_callargs fr) e\<rparr>
      in if truthy (get (f_args fr) ''fatal$'') then die so e (actcache_alias (f_actid fr) r1 st2)
         else if consumed so (f_callargs fr) e then actcache_alias (f_actid fr) (set0 e result) st2
         else call_actdone so fr (set0 e result) (actcache_alias (f_actid fr) (set0 e result) st2))"
  using assms
  by (simp add: act_done_def Let_def act_error_eq eh_events_def consumed_def
           split: option.splits)

lemma eh_events_proj [simp]:
  "handler_calls (eh_events so c e) = []"
  "callbacks (eh_events so c e) = []"
  "dies (eh_events so c e) = []"
  "sub_calls (eh_events so c e) = []"
  "act_errs (eh_events so c e) = []"
  by (simp_all add: eh_events_def split: option.splits)

lemma act_done_error_proj:
  assumes t: "truthy (result_error so fr result)"
  defines "e \<equiv> format_error (result_error so fr result) (f_actmeta fr)"
  shows "callbacks (trace (act_done so fr result st)) =
           callbacks (trace st) @
             (if truthy (get (f_args fr) ''fatal$'') \<or> consumed so (f_callargs fr) e then []
              else [(False, set0 e result)])"
    and "handler_calls (trace (act_done so fr result st)) = handler_calls (trace st)"
    and "dies (trace (act_done so fr result st)) =
           dies (trace st) @ (if truthy (get (f_args fr) ''fatal$'') then [e] else [])"
    and "\<exists>rest. act_errs (trace (act_done so fr result st)) = act_errs (trace st) @ e # rest"
    and "\<exists>rest. errhandler_calls (trace (act_done so fr result st)) =
           errhandler_calls (trace st) @ errhandler_calls (eh_events so (f_callargs fr) e) @ rest"
  unfolding e_def
  by (simp_all add: act_done_error [OF t] Let_def call_actdone_trace)

lemma act_done_handler_calls [simp]:
  "handler_calls (trace (act_done so fr result st)) = handler_calls (trace st)"
  by (cases "truthy (result_error so fr result)")
     (simp_all add: act_done_error_proj act_done_success_proj)

lemma act_done_other:
  "actrouter (act_done so fr result st) = actrouter st \<and>
   closed (act_done so fr result st) = closed st \<and>
   nid (act_done so fr result st) = nid st \<and>
   nid_next (act_done so fr result st) = nid_next st \<and>
   subrouter (act_done so fr result st) = subrouter st \<and>
   handle_sub_installed (act_done so fr result st) = handle_sub_installed st \<and>
   n_cache (stats (act_done so fr result st)) = n_cache (stats st)"
proof (cases "truthy (result_error so fr result)")
  case True
  show ?thesis
    by (simp add: act_done_error [OF True] Let_def call_actdone_other small_defs)
next
  case False
  obtain c evs where a: "act_done so fr result st =
         call_actdone so (fr\<lparr>f_callargs := c\<rparr>) (set0 JNull result)
           (bump_done (f_actstats fr) (emit_log ''act'' ''OUT''
              (actcache_alias (f_actid fr) (set0 JNull result)
                 ((actcache_set so (f_actid fr) \<lparr>ce_result = result, ce_actmeta = f_actmeta fr\<rparr> st)
                    \<lparr>trace := trace st @ EvEmit ''act-out'' (f_callargs fr) (arg_at result 1) # evs\<rparr>))))"
    using act_done_success [OF False] by blast
  show ?thesis
    by (simp add: a call_actdone_other small_defs split: option.splits)
qed

lemma executable_action_found:
  "f_actmeta fr = Some am \<Longrightarrow>
   executable_action so fr inst st =
     (if loops so (f_args fr) am then (False, act_done so fr [loop_error (f_args fr) am] st)
      else (True, st))"
  by (simp add: executable_action_def loops_def loop_error_def split: jsval.splits)

lemma executable_action_none:
  "f_actmeta fr = None \<Longrightarrow>
   executable_action so fr inst st =
     (False,
      if isPlainObject (get (f_args fr) ''default$'') \<or> isArray (get (f_args fr) ''default$'')
      then act_done so fr [JNull, get (f_args fr) ''default$''] (emit_log ''act'' ''DEFAULT'' st)
      else if truthy (get (f_args fr) ''fatal$'')
      then die so (notfound_error (get (f_args fr) ''default$'')) st
      else act_done so fr [notfound_error (get (f_args fr) ''default$'')]
             (if trace_unknown so then emit_log ''act'' ''UNKNOWN'' st else st))"
  by (simp add: executable_action_def Let_def notfound_error_def)

lemma execute_action_notfound:
  assumes "resolve st (f_actmeta fr) (f_args fr) = None"
  shows "execute_action so fr inst st =
     (if isPlainObject (get (f_args fr) ''default$'') \<or> isArray (get (f_args fr) ''default$'')
      then act_done so (fr\<lparr>f_actmeta := None\<rparr>) [JNull, get (f_args fr) ''default$'']
             (emit_log ''act'' ''DEFAULT'' st)
      else if truthy (get (f_args fr) ''fatal$'')
      then die so (notfound_error (get (f_args fr) ''default$'')) st
      else act_done so (fr\<lparr>f_actmeta := None\<rparr>) [notfound_error (get (f_args fr) ''default$'')]
             (if trace_unknown so then emit_log ''act'' ''UNKNOWN'' st else st))"
  using assms
  by (simp add: execute_action_def Let_def resolve_def executable_action_none)

lemma execute_action_loop:
  assumes "resolve st (f_actmeta fr) (f_args fr) = Some am" "loops so (f_args fr) am"
  shows "execute_action so fr inst st =
           act_done so (fr\<lparr>f_actmeta := Some am\<rparr>) [loop_error (f_args fr) am] st"
  using assms
  by (simp add: execute_action_def Let_def resolve_def executable_action_found)

lemma execute_action_invalid:
  assumes "resolve st (f_actmeta fr) (f_args fr) = Some am" "\<not> loops so (f_args fr) am"
    "validate_action_message so (f_args fr) am = Some err"
  shows "execute_action so fr inst st = act_done so (fr\<lparr>f_actmeta := Some am\<rparr>) [err] st"
  using assms
  by (simp add: execute_action_def Let_def resolve_def executable_action_found)

lemma execute_action_run:
  assumes r: "resolve st (f_actmeta fr) (f_args fr) = Some am"
    and l: "\<not> loops so (f_args fr) am"
    and v: "validate_action_message so (f_args fr) am = None"
    and cm: "call_message so inst (fr\<lparr>f_actmeta := Some am\<rparr>) am = (args1, callargs)"
  shows "\<exists>c evs S. quiet evs \<and>
      (\<forall>k. k \<noteq> ''meta$'' \<longrightarrow> get c k = get callargs k) \<and>
      (\<forall>k. k \<noteq> ''sub'' \<longrightarrow> jsprop (get c ''meta$'') k = jsprop (get callargs ''meta$'') k) \<and>
      S = (act_stats_call (am_pattern am) st)
            \<lparr>trace := trace st @
               (if truthy (am_deprecate am) then [EvLog ''act'' ''DEPRECATED''] else []) @
               (if \<not> am_sub am then [EvLog ''act'' ''IN''] else []) @
               EvEmit ''act-in'' callargs JUndefined # evs\<rparr> \<and>
      execute_action so fr inst st =
        (let fr1 = fr\<lparr>f_actmeta := Some am, f_args := args1, f_callargs := c,
                      f_actstats := Some (am_pattern am)\<rparr>
         in if closed st \<and> \<not> truthy (get c ''closing$'')
            then act_done so fr1
                   [internals_error ''instance-closed'' [(''args'', JObj Plain (clean c))]] S
            else (case am_func am c of
                    Done res \<Rightarrow> act_done so fr1 res (S\<lparr>trace := trace S @ [EvHandler (am_id am) c]\<rparr>)
                  | Throw ex \<Rightarrow> act_done so fr1 [ex] (S\<lparr>trace := trace S @ [EvHandler (am_id am) c]\<rparr>)
                  | NoReply \<Rightarrow> S\<lparr>trace := trace S @ [EvHandler (am_id am) c]\<rparr>))"
proof -
  let ?st2 = "act_stats_call (am_pattern am) st"
  let ?st3 = "if truthy (am_deprecate am) then emit_log ''act'' ''DEPRECATED'' ?st2 else ?st2"
  let ?st4 = "if \<not> am_sub am then emit_log ''act'' ''IN'' ?st3 else ?st3"
  let ?st5 = "?st4\<lparr>trace := trace ?st4 @ [EvEmit ''act-in'' callargs JUndefined]\<rparr>"
  obtain c evs where e:
    "emit_subs ''in$'' callargs JUndefined ?st5 = (None, c, ?st5\<lparr>trace := trace ?st5 @ evs\<rparr>)"
    "quiet evs"
    "\<forall>k. k \<noteq> ''meta$'' \<longrightarrow> get c k = get callargs k"
    "\<forall>k. k \<noteq> ''sub'' \<longrightarrow> jsprop (get c ''meta$'') k = jsprop (get callargs ''meta$'') k"
    using emit_subs_eq by blast
  let ?S = "?st2\<lparr>trace := trace st @
               (if truthy (am_deprecate am) then [EvLog ''act'' ''DEPRECATED''] else []) @
               (if \<not> am_sub am then [EvLog ''act'' ''IN''] else []) @
               EvEmit ''act-in'' callargs JUndefined # evs\<rparr>"
  have S: "?st5\<lparr>trace := trace ?st5 @ evs\<rparr> = ?S"
    by (simp add: emit_log_def)
  have cl: "closed ?S = closed st"
    by (simp add: act_stats_call_def Let_def)
  have "execute_action so fr inst st =
        (let fr1 = fr\<lparr>f_actmeta := Some am, f_args := args1, f_callargs := c,
                      f_actstats := Some (am_pattern am)\<rparr>
         in if closed st \<and> \<not> truthy (get c ''closing$'')
            then act_done so fr1
                   [internals_error ''instance-closed'' [(''args'', JObj Plain (clean c))]] ?S
            else (case am_func am c of
                    Done res \<Rightarrow> act_done so fr1 res (?S\<lparr>trace := trace ?S @ [EvHandler (am_id am) c]\<rparr>)
                  | Throw ex \<Rightarrow> act_done so fr1 [ex] (?S\<lparr>trace := trace ?S @ [EvHandler (am_id am) c]\<rparr>)
                  | NoReply \<Rightarrow> ?S\<lparr>trace := trace ?S @ [EvHandler (am_id am) c]\<rparr>))"
    using r l v cm e(1) unfolding S
    by (simp add: execute_action_def Let_def resolve_def executable_action_found cl
             split: hresult.splits)
  with e(2,3,4) show ?thesis by blast
qed

lemma given_id_with_default [simp]: "given_id (with_default so msg) = given_id msg"
  by (simp add: given_id_def with_default_def get_put)

lemma cache_lookup_with_default [simp]:
  "cache_lookup so (with_default so msg) st = cache_lookup so msg st"
  by (simp add: cache_lookup_def)

lemma cache_lookup_nid [simp]:
  "cache_lookup so msg (st\<lparr>nid_next := n\<rparr>) = cache_lookup so msg st"
  by (simp add: cache_lookup_def split: jsval.splits)

lemma apply_actcache_miss:
  "cache_lookup so args st = None \<Longrightarrow> apply_actcache so args cb st = (False, st)"
  by (auto simp: apply_actcache_def cache_lookup_def given_id_def Let_def lru_get_def
           split: jsval.splits option.splits if_splits)

lemma apply_actcache_hit:
  "cache_lookup so args st = Some e \<Longrightarrow>
   \<exists>k. given_id args = JStr k \<and>
     apply_actcache so args cb st =
       (True, st\<lparr>actcache := (k, e) # AList.delete k (actcache st),
                 stats := (stats st)\<lparr>n_cache := Suc (n_cache (stats st))\<rparr>,
                 trace := trace st @ [EvLog ''act'' ''CACHE'', EvCallback True (ce_result e)]\<rparr>)"
  by (auto simp: apply_actcache_def cache_lookup_def given_id_def Let_def lru_get_def
           split: jsval.splits option.splits if_splits)

lemma or_idgen_state: "\<exists>n. snd (or_idgen v st) = st\<lparr>nid_next := n\<rparr>"
proof (cases "truthy v")
  case True
  then have "snd (or_idgen v st) = st\<lparr>nid_next := nid_next st\<rparr>"
    by (simp add: or_idgen_def)
  then show ?thesis by blast
next
  case False
  then have "snd (or_idgen v st) = st\<lparr>nid_next := Suc (nid_next st)\<rparr>"
    by (simp add: or_idgen_def idgen_def)
  then show ?thesis by blast
qed

lemma act_ids_ok:
  assumes "id_ok msg"
  shows "\<exists>a tx n. act_ids inst msg st = Inr (a @ ''/'' @ to_string tx, tx, st\<lparr>nid_next := n\<rparr>)"
proof -
  obtain v st1 where o1: "or_idgen (given_id msg) st = (v, st1)" by (cases "or_idgen (given_id msg) st")
  obtain n1 where n1: "st1 = st\<lparr>nid_next := n1\<rparr>"
    using or_idgen_state [of "given_id msg" st] o1 by auto
  have "\<exists>ids. v = JStr ids"
  proof (cases "truthy (given_id msg)")
    case True
    with assms obtain s where "given_id msg = JStr s"
      by (cases "given_id msg") (simp_all add: id_ok_def)
    with True o1 have "v = JStr s" by (simp add: or_idgen_def)
    then show ?thesis by blast
  next
    case False
    with o1 show ?thesis by (auto simp: or_idgen_def idgen_def)
  qed
  then obtain ids where ids: "v = JStr ids" by blast
  let ?txv = "or_js (at_index (split_on CHR ''/'' ids) 1)
                (or_js (get msg ''tx$'') (get (fixedargs inst) ''tx$''))"
  obtain tx st2 where o2: "or_idgen ?txv st1 = (tx, st2)" by (cases "or_idgen ?txv st1")
  obtain n2 where n2: "st2 = st\<lparr>nid_next := n2\<rparr>"
    using or_idgen_state [of ?txv st1] o2 n1 by auto
  obtain id0 st3 where o3: "or_idgen (at_index (split_on CHR ''/'' ids) 0) st2 = (id0, st3)"
    by (cases "or_idgen (at_index (split_on CHR ''/'' ids) 0) st2")
  obtain n3 where n3: "st3 = st\<lparr>nid_next := n3\<rparr>"
    using or_idgen_state [of "at_index (split_on CHR ''/'' ids) 0" st2] o3 n2 by auto
  have "act_ids inst msg st = Inr (to_string id0 @ ''/'' @ to_string tx, tx, st3)"
    using o1 o2 o3 ids by (simp add: act_ids_def given_id_def)
  with n3 show ?thesis by blast
qed

lemma act_ids_bad:
  "\<not> id_ok msg \<Longrightarrow> act_ids inst msg st = Inl type_error"
  by (auto simp: id_ok_def act_ids_def given_id_def or_idgen_def split: jsval.splits)

lemma do_act_fresh:
  assumes "act_ids inst msg st = Inr (actid, tx, st3)" "cache_lookup so msg st3 = None"
  shows "do_act so inst actmeta pc0 msg cb st =
           Inr (execute_action so (frame_of so inst actmeta pc0 msg cb actid tx)
                  (exec_inst so inst msg) st3)"
  using assms
  by (simp add: do_act_def Let_def apply_actcache_miss frame_of_def exec_inst_def)

lemma do_act_replay:
  assumes "act_ids inst msg st = Inr (actid, tx, st3)" "cache_lookup so msg st3 = Some e"
  shows "\<exists>k. given_id msg = JStr k \<and>
     do_act so inst actmeta pc0 msg cb st =
       Inr (st3\<lparr>actcache := (k, e) # AList.delete k (actcache st3),
                stats := (stats st3)\<lparr>n_cache := Suc (n_cache (stats st3))\<rparr>,
                trace := trace st3 @ [EvLog ''act'' ''CACHE'', EvCallback True (ce_result e)]\<rparr>)"
proof -
  from assms(2) have "cache_lookup so (with_default so msg) st3 = Some e" by simp
  from apply_actcache_hit [OF this, of cb] obtain k where
    "given_id msg = JStr k"
    "apply_actcache so (with_default so msg) cb st3 =
       (True, st3\<lparr>actcache := (k, e) # AList.delete k (actcache st3),
                 stats := (stats st3)\<lparr>n_cache := Suc (n_cache (stats st3))\<rparr>,
                 trace := trace st3 @ [EvLog ''act'' ''CACHE'', EvCallback True (ce_result e)]\<rparr>)"
    by auto
  with assms(1) show ?thesis
    by (simp add: do_act_def Let_def)
qed


lemma distinct_put: "distinct (map fst obj) \<Longrightarrow> distinct (map fst (put obj k v))"
  by (simp add: put_def distinct_update)

lemma distinct_extend_obj: "distinct (map fst a) \<Longrightarrow> distinct (map fst (extend_obj a b))"
proof (induction b arbitrary: a)
  case Nil
  then show ?case by (simp add: extend_obj_def)
next
  case (Cons x xs)
  obtain k v where x: "x = (k, v)" by (cases x)
  have "extend_obj a (x # xs) = extend_obj (put a k v) xs"
    by (simp add: extend_obj_def x)
  with Cons.IH [of "put a k v"] Cons.prems show ?case
    by (simp add: distinct_put)
qed

lemma get_extend_distinct:
  "distinct (map fst b) \<Longrightarrow>
     get (extend_obj a b) k = (case map_of b k of Some v \<Rightarrow> v | None \<Rightarrow> get a k)"
  by (simp add: get_extend_obj map_of_rev_distinct)

lemma get_Nil [simp]: "get [] k = JUndefined"
  by (simp add: get_def)

lemma get_map_of: "map_of obj k = Some v \<Longrightarrow> get obj k = v"
  by (simp add: get_def)

lemma map_of_get: "map_of obj k = None \<Longrightarrow> get obj k = JUndefined"
  by (simp add: get_def)

lemma get_extend_Nil: "distinct (map fst f) \<Longrightarrow> get (extend_obj [] f) k = get f k"
  by (simp add: get_def map_of_extend_obj map_of_rev_distinct)

lemma get_case: "(case map_of f k of None \<Rightarrow> JUndefined | Some v \<Rightarrow> v) = get f k"
  by (simp add: get_def)

lemma api_delegate_distinct: "distinct (map fst (fixedargs (api_delegate so i f)))"
  by (simp add: api_delegate_def distinct_extend_obj)

lemma api_delegate_get:
  assumes "distinct (map fst f)" "distinct (map fst (fixedargs i))"
  shows "get (fixedargs (api_delegate so i f)) k =
     (if strict_fixedargs so
      then (case map_of (fixedargs i) k of Some v \<Rightarrow> v | None \<Rightarrow> get f k)
      else (case map_of f k of Some v \<Rightarrow> v | None \<Rightarrow> get (fixedargs i) k))"
  using assms
  by (simp add: api_delegate_def get_extend_distinct get_case cong: option.case_cong)

lemma api_delegate_map_of:
  assumes "distinct (map fst (fixedargs i))" "map_of (fixedargs i) k = Some v" "map_of f k = None"
    "distinct (map fst f)"
  shows "map_of (fixedargs (api_delegate so i f)) k = Some v"
  using assms
  by (simp add: api_delegate_def map_of_extend_obj map_of_rev_distinct map_add_def
           del: map_of_eq_Some_iff)

lemma exec_inst_map_of:
  assumes "distinct (map fst (fixedargs i))" "map_of (fixedargs i) k = Some v"
  shows "map_of (fixedargs (exec_inst so i msg)) k = Some v"
    and "distinct (map fst (fixedargs (exec_inst so i msg)))"
  using assms
  by (simp_all add: exec_inst_def api_delegate_map_of api_delegate_distinct
        del: map_of_eq_Some_iff)

lemma act_make_delegate_map_of:
  assumes "distinct (map fst (fixedargs i))" "map_of (fixedargs i) k = Some v"
    "k \<noteq> ''tx$''" "k \<noteq> ''plugin$''"
  shows "map_of (fixedargs (act_make_delegate so i tx am)) k = Some v"
    and "distinct (map fst (fixedargs (act_make_delegate so i tx am)))"
  using assms
  by (simp_all add: act_make_delegate_def Let_def api_delegate_map_of api_delegate_distinct
        put_def update_conv' distinct_update del: map_of_eq_Some_iff)

lemma call_message_fixed:
  assumes "distinct (map fst (fixedargs i))" "map_of (fixedargs i) k = Some v"
    "k \<noteq> ''tx$''" "k \<noteq> ''plugin$''"
  shows "get (snd (call_message so i fr am)) k = v"
  using act_make_delegate_map_of [OF assms, of so "f_tx fr" am]
  by (simp add: call_message_def Let_def get_extend_obj map_of_rev_distinct assms(3)
           del: map_of_eq_Some_iff)

lemma execute_action_handler:
  "handler_calls (trace (execute_action so fr inst st)) = handler_calls (trace st) \<or>
   (\<exists>am c. resolve st (f_actmeta fr) (f_args fr) = Some am \<and> \<not> loops so (f_args fr) am \<and>
      validate_action_message so (f_args fr) am = None \<and>
      (\<forall>k. k \<noteq> ''meta$'' \<longrightarrow>
         get c k = get (snd (call_message so inst (fr\<lparr>f_actmeta := Some am\<rparr>) am)) k) \<and>
      (\<forall>k. k \<noteq> ''sub'' \<longrightarrow>
         jsprop (get c ''meta$'') k =
         jsprop (get (snd (call_message so inst (fr\<lparr>f_actmeta := Some am\<rparr>) am)) ''meta$'') k) \<and>
      \<not> (closed st \<and> \<not> truthy (get c ''closing$'')) \<and>
      handler_calls (trace (execute_action so fr inst st)) =
        handler_calls (trace st) @ [(am_id am, c)])"
proof (cases "resolve st (f_actmeta fr) (f_args fr)")
  case None
  then show ?thesis by (simp add: execute_action_notfound)
next
  case (Some am)
  show ?thesis
  proof (cases "loops so (f_args fr) am")
    case True
    with Some show ?thesis by (simp add: execute_action_loop)
  next
    case False
    show ?thesis
    proof (cases "validate_action_message so (f_args fr) am")
      case (Some err)
      with False \<open>resolve st (f_actmeta fr) (f_args fr) = Some am\<close> show ?thesis
        by (simp add: execute_action_invalid)
    next
      case None
      obtain args1 callargs where
        cm: "call_message so inst (fr\<lparr>f_actmeta := Some am\<rparr>) am = (args1, callargs)"
        by (cases "call_message so inst (fr\<lparr>f_actmeta := Some am\<rparr>) am")
      from execute_action_run [OF Some False None cm]
      obtain c evs S where r:
        "quiet evs"
        "\<forall>k. k \<noteq> ''meta$'' \<longrightarrow> get c k = get callargs k"
        "\<forall>k. k \<noteq> ''sub'' \<longrightarrow> jsprop (get c ''meta$'') k = jsprop (get callargs ''meta$'') k"
        "S = (act_stats_call (am_pattern am) st)
            \<lparr>trace := trace st @
               (if truthy (am_deprecate am) then [EvLog ''act'' ''DEPRECATED''] else []) @
               (if \<not> am_sub am then [EvLog ''act'' ''IN''] else []) @
               EvEmit ''act-in'' callargs JUndefined # evs\<rparr>"
        "execute_action so fr inst st =
        (let fr1 = fr\<lparr>f_actmeta := Some am, f_args := args1, f_callargs := c,
                      f_actstats := Some (am_pattern am)\<rparr>
         in if closed st \<and> \<not> truthy (get c ''closing$'')
            then act_done so fr1
                   [internals_error ''instance-closed'' [(''args'', JObj Plain (clean c))]] S
            else (case am_func am c of
                    Done res \<Rightarrow> act_done so fr1 res (S\<lparr>trace := trace S @ [EvHandler (am_id am) c]\<rparr>)
                  | Throw ex \<Rightarrow> act_done so fr1 [ex] (S\<lparr>trace := trace S @ [EvHandler (am_id am) c]\<rparr>)
                  | NoReply \<Rightarrow> S\<lparr>trace := trace S @ [EvHandler (am_id am) c]\<rparr>))"
        by blast
      have hS: "handler_calls (trace S) = handler_calls (trace st)"
        using r(1) by (simp add: r(4) quiet_def)
      show ?thesis
      proof (cases "closed st \<and> \<not> truthy (get c ''closing$'')")
        case True
        with r(5) hS show ?thesis by (simp add: Let_def)
      next
        case notclosed: False
        then have "handler_calls (trace (execute_action so fr inst st)) =
            handler_calls (trace st) @ [(am_id am, c)]"
          using r(5) hS by (simp add: Let_def split: hresult.splits)
        with Some False None cm r(2,3) notclosed
          \<open>resolve st (f_actmeta fr) (f_args fr) = Some am\<close> show ?thesis
          by auto
      qed
    qed
  qed
qed


lemma resolve_nid [simp]: "resolve (st\<lparr>nid_next := n\<rparr>) actmeta args = resolve st actmeta args"
  by (simp add: resolve_def find_action_def split: option.splits)

lemma frame_of_simps [simp]:
  "f_args (frame_of so inst actmeta pc0 msg cb actid tx) = with_default so msg"
  "f_callargs (frame_of so inst actmeta pc0 msg cb actid tx) = with_default so msg"
  "f_actmeta (frame_of so inst actmeta pc0 msg cb actid tx) = actmeta"
  "f_actid (frame_of so inst actmeta pc0 msg cb actid tx) = actid"
  "f_tx (frame_of so inst actmeta pc0 msg cb actid tx) = tx"
  "f_actdone (frame_of so inst actmeta pc0 msg cb actid tx) = cb"
  "f_actstats (frame_of so inst actmeta pc0 msg cb actid tx) = None"
  "f_prior_ctxt (frame_of so inst actmeta pc0 msg cb actid tx) =
     (case pc0 of None \<Rightarrow> \<lparr>chain = [], entry = True, depth = 1\<rparr> | Some c \<Rightarrow> c)"
  "f_is_sync (frame_of so inst actmeta pc0 msg cb actid tx) = (cb \<noteq> None)"
  by (simp_all add: frame_of_def split: option.splits)

lemma do_act_cases:
  assumes "do_act so inst actmeta pc0 msg cb st = Inr st'"
  shows "\<exists>a tx n. act_ids inst msg st = Inr (a @ ''/'' @ to_string tx, tx, st\<lparr>nid_next := n\<rparr>) \<and>
     (case cache_lookup so msg st of
        Some e \<Rightarrow>
          (\<exists>k. given_id msg = JStr k \<and>
            st' = st\<lparr>nid_next := n, actcache := (k, e) # AList.delete k (actcache st),
                     stats := (stats st)\<lparr>n_cache := Suc (n_cache (stats st))\<rparr>,
                     trace := trace st @ [EvLog ''act'' ''CACHE'', EvCallback True (ce_result e)]\<rparr>)
      | None \<Rightarrow>
          st' = execute_action so
                  (frame_of so inst actmeta pc0 msg cb (a @ ''/'' @ to_string tx) tx)
                  (exec_inst so inst msg) (st\<lparr>nid_next := n\<rparr>))"
proof -
  have ok: "id_ok msg"
  proof (rule ccontr)
    assume "\<not> id_ok msg"
    then have "act_ids inst msg st = Inl type_error" by (rule act_ids_bad)
    with assms show False by (simp add: do_act_def)
  qed
  from act_ids_ok [OF ok, of inst st] obtain a tx n where
    ids: "act_ids inst msg st = Inr (a @ ''/'' @ to_string tx, tx, st\<lparr>nid_next := n\<rparr>)"
    by blast
  show ?thesis
  proof (cases "cache_lookup so msg st")
    case None
    then have "cache_lookup so msg (st\<lparr>nid_next := n\<rparr>) = None" by simp
    from do_act_fresh [OF ids this] assms None ids show ?thesis by auto
  next
    case (Some e)
    then have "cache_lookup so msg (st\<lparr>nid_next := n\<rparr>) = Some e" by simp
    from do_act_replay [OF ids this, of actmeta pc0 cb] assms Some ids show ?thesis by auto
  qed
qed

lemma do_act_handler:
  assumes "do_act so inst actmeta pc0 msg cb st = Inr st'"
  shows "handler_calls (trace st') = handler_calls (trace st) \<or>
   (\<exists>actid tx am c.
      cache_lookup so msg st = None \<and>
      resolve st actmeta (with_default so msg) = Some am \<and>
      \<not> loops so (with_default so msg) am \<and>
      validate_action_message so (with_default so msg) am = None \<and>
      (\<forall>k. k \<noteq> ''meta$'' \<longrightarrow>
         get c k = get (snd (call_message so (exec_inst so inst msg)
                       ((frame_of so inst actmeta pc0 msg cb actid tx)\<lparr>f_actmeta := Some am\<rparr>) am)) k) \<and>
      (\<forall>k. k \<noteq> ''sub'' \<longrightarrow>
         jsprop (get c ''meta$'') k =
         jsprop (get (snd (call_message so (exec_inst so inst msg)
                       ((frame_of so inst actmeta pc0 msg cb actid tx)\<lparr>f_actmeta := Some am\<rparr>) am))
                   ''meta$'') k) \<and>
      (\<exists>n. act_ids inst msg st = Inr (actid, tx, st\<lparr>nid_next := n\<rparr>)) \<and>
      \<not> (closed st \<and> \<not> truthy (get c ''closing$'')) \<and>
      handler_calls (trace st') = handler_calls (trace st) @ [(am_id am, c)])"
proof -
  from do_act_cases [OF assms] obtain a tx n where
    ids: "act_ids inst msg st = Inr (a @ ''/'' @ to_string tx, tx, st\<lparr>nid_next := n\<rparr>)"
    and c: "case cache_lookup so msg st of
        Some e \<Rightarrow>
          (\<exists>k. given_id msg = JStr k \<and>
            st' = st\<lparr>nid_next := n, actcache := (k, e) # AList.delete k (actcache st),
                     stats := (stats st)\<lparr>n_cache := Suc (n_cache (stats st))\<rparr>,
                     trace := trace st @ [EvLog ''act'' ''CACHE'', EvCallback True (ce_result e)]\<rparr>)
      | None \<Rightarrow>
          st' = execute_action so
                  (frame_of so inst actmeta pc0 msg cb (a @ ''/'' @ to_string tx) tx)
                  (exec_inst so inst msg) (st\<lparr>nid_next := n\<rparr>)"
    by blast
  show ?thesis
  proof (cases "cache_lookup so msg st")
    case (Some e)
    with c show ?thesis by auto
  next
    case None
    with c have st': "st' = execute_action so
                  (frame_of so inst actmeta pc0 msg cb (a @ ''/'' @ to_string tx) tx)
                  (exec_inst so inst msg) (st\<lparr>nid_next := n\<rparr>)"
      by simp
    from execute_action_handler
           [of so "frame_of so inst actmeta pc0 msg cb (a @ ''/'' @ to_string tx) tx"
               "exec_inst so inst msg" "st\<lparr>nid_next := n\<rparr>"]
    show ?thesis
    proof
      assume "handler_calls
         (trace (execute_action so
             (frame_of so inst actmeta pc0 msg cb (a @ ''/'' @ to_string tx) tx)
             (exec_inst so inst msg) (st\<lparr>nid_next := n\<rparr>))) =
        handler_calls (trace (st\<lparr>nid_next := n\<rparr>))"
      with st' show ?thesis by simp
    next
      assume "\<exists>am c. resolve (st\<lparr>nid_next := n\<rparr>)
             (f_actmeta (frame_of so inst actmeta pc0 msg cb (a @ ''/'' @ to_string tx) tx))
             (f_args (frame_of so inst actmeta pc0 msg cb (a @ ''/'' @ to_string tx) tx)) = Some am \<and>
            \<not> loops so (f_args (frame_of so inst actmeta pc0 msg cb (a @ ''/'' @ to_string tx) tx)) am \<and>
            validate_action_message so
             (f_args (frame_of so inst actmeta pc0 msg cb (a @ ''/'' @ to_string tx) tx)) am = None \<and>
            (\<forall>k. k \<noteq> ''meta$'' \<longrightarrow>
                 get c k =
                 get (snd (call_message so (exec_inst so inst msg)
                            (frame_of so inst actmeta pc0 msg cb (a @ ''/'' @ to_string tx) tx
                             \<lparr>f_actmeta := Some am\<rparr>) am)) k) \<and>
            (\<forall>k. k \<noteq> ''sub'' \<longrightarrow>
                 jsprop (get c ''meta$'') k =
                 jsprop (get (snd (call_message so (exec_inst so inst msg)
                            (frame_of so inst actmeta pc0 msg cb (a @ ''/'' @ to_string tx) tx
                             \<lparr>f_actmeta := Some am\<rparr>) am)) ''meta$'') k) \<and>
            \<not> (closed (st\<lparr>nid_next := n\<rparr>) \<and> \<not> truthy (get c ''closing$'')) \<and>
            handler_calls
             (trace (execute_action so
                 (frame_of so inst actmeta pc0 msg cb (a @ ''/'' @ to_string tx) tx)
                 (exec_inst so inst msg) (st\<lparr>nid_next := n\<rparr>))) =
            handler_calls (trace (st\<lparr>nid_next := n\<rparr>)) @ [(am_id am, c)]"
      then obtain am c where h:
        "resolve st actmeta (with_default so msg) = Some am"
        "\<not> loops so (with_default so msg) am"
        "validate_action_message so (with_default so msg) am = None"
        "\<forall>k. k \<noteq> ''meta$'' \<longrightarrow>
                 get c k =
                 get (snd (call_message so (exec_inst so inst msg)
                            (frame_of so inst actmeta pc0 msg cb (a @ ''/'' @ to_string tx) tx
                             \<lparr>f_actmeta := Some am\<rparr>) am)) k"
        "\<forall>k. k \<noteq> ''sub'' \<longrightarrow>
                 jsprop (get c ''meta$'') k =
                 jsprop (get (snd (call_message so (exec_inst so inst msg)
                            (frame_of so inst actmeta pc0 msg cb (a @ ''/'' @ to_string tx) tx
                             \<lparr>f_actmeta := Some am\<rparr>) am)) ''meta$'') k"
        "\<not> (closed st \<and> \<not> truthy (get c ''closing$''))"
        "handler_calls (trace st') = handler_calls (trace st) @ [(am_id am, c)]"
        using st' by auto
      with None ids show ?thesis by blast
    qed
  qed
qed


lemma same_core_refl [simp]: "same_core st st"
  by (simp add: same_core_def)

lemma same_core_small [simp]:
  "same_core st (emit_log kd cs S) = same_core st S"
  "same_core st (S\<lparr>trace := t\<rparr>) = same_core st S"
  by (simp_all add: same_core_def emit_log_def)

lemma same_core_stats_call [simp]: "same_core st (act_stats_call p S) = same_core st S"
  by (simp add: same_core_def act_stats_call_def Let_def)

lemma same_core_die [simp]: "same_core st (die so e S) = same_core st S"
  by (simp add: same_core_def die_def)

lemma execute_action_shape:
  "(\<exists>fr' r S. execute_action so fr inst st = act_done so fr' r S \<and>
      f_actid fr' = f_actid fr \<and> f_actdone fr' = f_actdone fr \<and>
      callbacks (trace S) = callbacks (trace st) \<and> dies (trace S) = dies (trace st) \<and>
      same_core st S) \<or>
   (callbacks (trace (execute_action so fr inst st)) = callbacks (trace st) \<and>
    same_core st (execute_action so fr inst st))"
proof (cases "resolve st (f_actmeta fr) (f_args fr)")
  case None
  let ?d = "get (f_args fr) ''default$''"
  show ?thesis
  proof (cases "isPlainObject ?d \<or> isArray ?d")
    case True
    with None have "execute_action so fr inst st =
        act_done so (fr\<lparr>f_actmeta := None\<rparr>) [JNull, ?d] (emit_log ''act'' ''DEFAULT'' st)"
      by (simp add: execute_action_notfound)
    then show ?thesis
      by (intro disjI1 exI [of _ "fr\<lparr>f_actmeta := None\<rparr>"] exI [of _ "[JNull, ?d]"]
            exI [of _ "emit_log ''act'' ''DEFAULT'' st"]) simp
  next
    case False
    show ?thesis
    proof (cases "truthy (get (f_args fr) ''fatal$'')")
      case True
      with None False have "execute_action so fr inst st = die so (notfound_error ?d) st"
        by (simp add: execute_action_notfound)
      then show ?thesis by simp
    next
      case nf: False
      let ?S = "if trace_unknown so then emit_log ''act'' ''UNKNOWN'' st else st"
      from None False nf have "execute_action so fr inst st =
          act_done so (fr\<lparr>f_actmeta := None\<rparr>) [notfound_error ?d] ?S"
        by (simp add: execute_action_notfound)
      then show ?thesis
        by (intro disjI1 exI [of _ "fr\<lparr>f_actmeta := None\<rparr>"] exI [of _ "[notfound_error ?d]"]
              exI [of _ ?S]) simp
    qed
  qed
next
  case (Some am)
  show ?thesis
  proof (cases "loops so (f_args fr) am")
    case True
    with Some have "execute_action so fr inst st =
        act_done so (fr\<lparr>f_actmeta := Some am\<rparr>) [loop_error (f_args fr) am] st"
      by (simp add: execute_action_loop)
    then show ?thesis
      by (intro disjI1 exI [of _ "fr\<lparr>f_actmeta := Some am\<rparr>"]
            exI [of _ "[loop_error (f_args fr) am]"] exI [of _ st]) simp
  next
    case False
    show ?thesis
    proof (cases "validate_action_message so (f_args fr) am")
      case (Some err)
      with False \<open>resolve st (f_actmeta fr) (f_args fr) = Some am\<close>
      have "execute_action so fr inst st = act_done so (fr\<lparr>f_actmeta := Some am\<rparr>) [err] st"
        by (simp add: execute_action_invalid)
      then show ?thesis
        by (intro disjI1 exI [of _ "fr\<lparr>f_actmeta := Some am\<rparr>"] exI [of _ "[err]"]
              exI [of _ st]) simp
    next
      case None
      obtain args1 callargs where
        cm: "call_message so inst (fr\<lparr>f_actmeta := Some am\<rparr>) am = (args1, callargs)"
        by (cases "call_message so inst (fr\<lparr>f_actmeta := Some am\<rparr>) am")
      from execute_action_run [OF Some False None cm]
      obtain c evs S where r:
        "quiet evs"
        "S = (act_stats_call (am_pattern am) st)
            \<lparr>trace := trace st @
               (if truthy (am_deprecate am) then [EvLog ''act'' ''DEPRECATED''] else []) @
               (if \<not> am_sub am then [EvLog ''act'' ''IN''] else []) @
               EvEmit ''act-in'' callargs JUndefined # evs\<rparr>"
        "execute_action so fr inst st =
        (let fr1 = fr\<lparr>f_actmeta := Some am, f_args := args1, f_callargs := c,
                      f_actstats := Some (am_pattern am)\<rparr>
         in if closed st \<and> \<not> truthy (get c ''closing$'')
            then act_done so fr1
                   [internals_error ''instance-closed'' [(''args'', JObj Plain (clean c))]] S
            else (case am_func am c of
                    Done res \<Rightarrow> act_done so fr1 res (S\<lparr>trace := trace S @ [EvHandler (am_id am) c]\<rparr>)
                  | Throw ex \<Rightarrow> act_done so fr1 [ex] (S\<lparr>trace := trace S @ [EvHandler (am_id am) c]\<rparr>)
                  | NoReply \<Rightarrow> S\<lparr>trace := trace S @ [EvHandler (am_id am) c]\<rparr>))"
        by blast
      let ?fr1 = "fr\<lparr>f_actmeta := Some am, f_args := args1, f_callargs := c,
                      f_actstats := Some (am_pattern am)\<rparr>"
      let ?S' = "S\<lparr>trace := trace S @ [EvHandler (am_id am) c]\<rparr>"
      have S: "callbacks (trace S) = callbacks (trace st)" "dies (trace S) = dies (trace st)"
        "same_core st S"
        using r(1) by (simp_all add: r(2) quiet_def)
      show ?thesis
      proof (cases "closed st \<and> \<not> truthy (get c ''closing$'')")
        case True
        with r(3) have "execute_action so fr inst st = act_done so ?fr1
            [internals_error ''instance-closed'' [(''args'', JObj Plain (clean c))]] S"
          by (simp add: Let_def)
        with S show ?thesis
          by (intro disjI1 exI [of _ ?fr1]
                exI [of _ "[internals_error ''instance-closed'' [(''args'', JObj Plain (clean c))]]"]
                exI [of _ S]) simp
      next
        case notclosed: False
        have e: "execute_action so fr inst st =
            (case am_func am c of
               Done res \<Rightarrow> act_done so ?fr1 res ?S'
             | Throw ex \<Rightarrow> act_done so ?fr1 [ex] ?S'
             | NoReply \<Rightarrow> ?S')"
          using r(3) unfolding Let_def if_not_P [OF notclosed] .
        show ?thesis
        proof (cases "am_func am c")
          case (Done res)
          with e have "execute_action so fr inst st = act_done so ?fr1 res ?S'"
            by simp
          with S show ?thesis
            by (intro disjI1 exI [of _ ?fr1] exI [of _ res] exI [of _ ?S']) simp
        next
          case (Throw ex)
          with e have "execute_action so fr inst st = act_done so ?fr1 [ex] ?S'"
            by simp
          with S show ?thesis
            by (intro disjI1 exI [of _ ?fr1] exI [of _ "[ex]"] exI [of _ ?S']) simp
        next
          case NoReply
          with e have "execute_action so fr inst st = ?S'"
            by simp
          with S show ?thesis by simp
        qed
      qed
    qed
  qed
qed

lemma act_done_error_errhandler:
  assumes t: "truthy (result_error so fr result)"
  shows "errhandler_calls (trace (act_done so fr result st)) =
     errhandler_calls (trace st) @
       errhandler_calls (eh_events so (f_callargs fr) (format_error (result_error so fr result) (f_actmeta fr))) @
       (if truthy (get (f_args fr) ''fatal$'')
        then errhandler_calls (die_events so (format_error (result_error so fr result) (f_actmeta fr)))
        else if consumed so (f_callargs fr) (format_error (result_error so fr result) (f_actmeta fr))
        then []
        else errhandler_calls (cont_events so fr
               (set0 (format_error (result_error so fr result) (f_actmeta fr)) result)))"
  by (simp add: act_done_error [OF t] Let_def call_actdone_trace del: die_events_proj(6))


lemma internals_error_facts [simp]:
  "truthy (internals_error c d)"
  "\<not> is_nullish (internals_error c d)"
  "jsprop (internals_error c d) ''code'' = JStr c"
  "format_error (internals_error c d) am = internals_error c d"
  "result_error so fr [internals_error c d] = internals_error c d"
  by (simp_all add: internals_error_def format_error_def result_error_def arg_at_def get_def
        is_perm_error_def)

lemma with_default_get: "k \<noteq> ''default$'' \<Longrightarrow> get (with_default so msg) k = get msg k"
  by (simp add: with_default_def get_put)

lemma with_default_default:
  "get (with_default so msg) ''default$'' =
     (if truthy (get msg ''default$'') \<or> strict_find so then get msg ''default$''
      else JObj Plain [])"
  by (simp add: with_default_def get_put or_js_def)

lemma resolve_with_default [simp]:
  "resolve st actmeta (with_default so msg) = resolve st actmeta msg"
  by (simp add: resolve_def with_default_def find_action_put_reserved split: option.splits)

lemma loops_with_default [simp]: "loops so (with_default so msg) am = loops so msg am"
  by (simp add: loops_def with_default_get)

lemma loop_error_with_default [simp]: "loop_error (with_default so msg) am = loop_error msg am"
  by (simp add: loop_error_def with_default_get)

lemma repeat_count_le: "repeat_count h a \<le> length h"
  by (simp add: repeat_count_def)

lemma loops_iff:
  "get msg ''history$'' = JArr h \<Longrightarrow>
   loops so msg am = (h \<noteq> [] \<and> strict_maxloop so < int (repeat_count h (am_id am)))"
  by (simp add: loops_def)

lemma execute_action_invokes:
  assumes r: "resolve st (f_actmeta fr) (f_args fr) = Some am"
    and l: "\<not> loops so (f_args fr) am"
    and v: "validate_action_message so (f_args fr) am = None"
    and o: "\<not> closed st"
  shows "\<exists>c. handler_calls (trace (execute_action so fr inst st)) =
               handler_calls (trace st) @ [(am_id am, c)]"
proof -
  from execute_action_handler [of so fr inst st]
  show ?thesis
  proof
    assume same: "handler_calls (trace (execute_action so fr inst st)) = handler_calls (trace st)"
    obtain args1 callargs where
      cm: "call_message so inst (fr\<lparr>f_actmeta := Some am\<rparr>) am = (args1, callargs)"
      by (cases "call_message so inst (fr\<lparr>f_actmeta := Some am\<rparr>) am")
    from execute_action_run [OF r l v cm]
    obtain c evs S where x:
      "quiet evs"
      "S = (act_stats_call (am_pattern am) st)
            \<lparr>trace := trace st @
               (if truthy (am_deprecate am) then [EvLog ''act'' ''DEPRECATED''] else []) @
               (if \<not> am_sub am then [EvLog ''act'' ''IN''] else []) @
               EvEmit ''act-in'' callargs JUndefined # evs\<rparr>"
      "execute_action so fr inst st =
        (let fr1 = fr\<lparr>f_actmeta := Some am, f_args := args1, f_callargs := c,
                      f_actstats := Some (am_pattern am)\<rparr>
         in if closed st \<and> \<not> truthy (get c ''closing$'')
            then act_done so fr1
                   [internals_error ''instance-closed'' [(''args'', JObj Plain (clean c))]] S
            else (case am_func am c of
                    Done res \<Rightarrow> act_done so fr1 res (S\<lparr>trace := trace S @ [EvHandler (am_id am) c]\<rparr>)
                  | Throw ex \<Rightarrow> act_done so fr1 [ex] (S\<lparr>trace := trace S @ [EvHandler (am_id am) c]\<rparr>)
                  | NoReply \<Rightarrow> S\<lparr>trace := trace S @ [EvHandler (am_id am) c]\<rparr>))"
      by blast
    have "handler_calls (trace S) = handler_calls (trace st)"
      using x(1) by (simp add: x(2) quiet_def)
    with x(3) o have "handler_calls (trace (execute_action so fr inst st)) =
        handler_calls (trace st) @ [(am_id am, c)]"
      by (simp add: Let_def split: hresult.splits)
    then show ?thesis by blast
  next
    assume "\<exists>am c. resolve st (f_actmeta fr) (f_args fr) = Some am \<and> \<not> loops so (f_args fr) am \<and>
      validate_action_message so (f_args fr) am = None \<and>
      (\<forall>k. k \<noteq> ''meta$'' \<longrightarrow>
         get c k = get (snd (call_message so inst (fr\<lparr>f_actmeta := Some am\<rparr>) am)) k) \<and>
      (\<forall>k. k \<noteq> ''sub'' \<longrightarrow>
         jsprop (get c ''meta$'') k =
         jsprop (get (snd (call_message so inst (fr\<lparr>f_actmeta := Some am\<rparr>) am)) ''meta$'') k) \<and>
      \<not> (closed st \<and> \<not> truthy (get c ''closing$'')) \<and>
      handler_calls (trace (execute_action so fr inst st)) =
        handler_calls (trace st) @ [(am_id am, c)]"
    with r show ?thesis by auto
  qed
qed

lemma do_act_fresh_state:
  assumes "do_act so inst actmeta pc0 msg cb st = Inr st'" "cache_lookup so msg st = None"
  shows "\<exists>a tx n. act_ids inst msg st = Inr (a @ ''/'' @ to_string tx, tx, st\<lparr>nid_next := n\<rparr>) \<and>
           st' = execute_action so
                  (frame_of so inst actmeta pc0 msg cb (a @ ''/'' @ to_string tx) tx)
                  (exec_inst so inst msg) (st\<lparr>nid_next := n\<rparr>)"
  using do_act_cases [OF assms(1)] assms(2) by auto


lemma map_of_put: "map_of (put obj k v) = (map_of obj)(k \<mapsto> v)"
  by (simp add: put_def update_conv')

lemma map_of_del: "map_of (del obj k) = (map_of obj)(k := None)"
  by (simp add: del_def delete_conv')

lemma map_of_rev_None: "map_of (rev b) k = None \<longleftrightarrow> map_of b k = None"
  by (simp add: map_of_eq_None_iff)

lemma api_delegate_None:
  assumes "map_of (fixedargs i) k = None" "map_of f k = None"
  shows "map_of (fixedargs (api_delegate so i f)) k = None"
proof -
  have "map_of (rev f) k = None" "map_of (rev (fixedargs i)) k = None"
    using assms by (simp_all add: map_of_rev_None)
  then show ?thesis
    by (simp add: api_delegate_def map_of_extend_obj map_add_def)
qed

lemma exec_inst_None:
  "map_of (fixedargs i) k = None \<Longrightarrow> map_of (fixedargs (exec_inst so i msg)) k = None"
  by (simp add: exec_inst_def api_delegate_None)

lemma act_make_delegate_None:
  "map_of (fixedargs i) k = None \<Longrightarrow> k \<noteq> ''tx$'' \<Longrightarrow> k \<noteq> ''plugin$'' \<Longrightarrow>
   map_of (fixedargs (act_make_delegate so i tx am)) k = None"
  by (simp add: act_make_delegate_def Let_def api_delegate_None map_of_put)

lemma distinct_del: "distinct (map fst obj) \<Longrightarrow> distinct (map fst (del obj k))"
  by (simp add: del_def distinct_delete)

lemma distinct_with_default:
  "distinct (map fst msg) \<Longrightarrow> distinct (map fst (with_default so msg))"
  by (simp add: with_default_def distinct_put)

lemma call_message_meta:
  assumes "map_of (fixedargs i) ''meta$'' = None" "distinct (map fst (f_args fr))"
  shows "get (snd (call_message so i fr am)) ''meta$'' = make_meta fr am"
proof -
  let ?args1 = "put (del (del (f_args fr) ''id$'') ''actid$'') ''meta$'' (make_meta fr am)"
  have "map_of (fixedargs (act_make_delegate so i (f_tx fr) am)) ''meta$'' = None"
    by (rule act_make_delegate_None [OF assms(1)]) simp_all
  then have n: "map_of (rev (fixedargs (act_make_delegate so i (f_tx fr) am))) ''meta$'' = None"
    by (simp add: map_of_rev_None)
  have d: "distinct (map fst ?args1)"
    by (intro distinct_put distinct_del assms(2))
  have "get (snd (call_message so i fr am)) ''meta$'' = get (extend_obj [] ?args1) ''meta$''"
    by (simp add: call_message_def Let_def get_extend_obj n)
  also have "\<dots> = get ?args1 ''meta$''"
    by (rule get_extend_Nil [OF d])
  also have "\<dots> = make_meta fr am"
    by (simp add: get_put)
  finally show ?thesis .
qed

lemma prior_ctxt_update:
  "pc\<lparr>chain := a, entry := b, depth := c\<rparr> = \<lparr>chain = a, entry = b, depth = c\<rparr>"
  by (cases pc) simp

lemma call_message_tx: "get (snd (call_message so i fr am)) ''tx$'' = f_tx fr"
  by (simp add: call_message_def Let_def get_extend_obj)

lemma split_on_no_sep: "c \<notin> set s \<Longrightarrow> split_on c s = [s]"
  by (induction s) auto

lemma act_ids_fresh_tx:
  assumes "\<not> truthy (given_id m)" "CHR ''/'' \<notin> set (nid st (nid_next st))"
    "truthy (get m ''tx$'')"
  shows "\<exists>a s. act_ids i m st = Inr (a, get m ''tx$'', s)"
  using assms
  by (simp add: act_ids_def given_id_def or_idgen_def idgen_def split_on_no_sep at_index_def
        or_js_def split: prod.splits)

lemma make_meta_simps [simp]:
  "jsprop (make_meta fr am) ''chain'' = JArr (map JStr (chain (f_prior_ctxt fr)))"
  "jsprop (make_meta fr am) ''entry'' = JBool (entry (f_prior_ctxt fr))"
  "jsprop (make_meta fr am) ''action'' = JStr (am_id am)"
  "jsprop (make_meta fr am) ''tx'' = f_tx fr"
  "jsprop (make_meta fr am) ''id'' = JStr (f_actid fr)"
  by (simp_all add: make_meta_def get_def)

lemma do_act_handler_changed:
  assumes run: "do_act so inst actmeta pc0 msg cb st = Inr st'"
    and ch: "handler_calls (trace st') \<noteq> handler_calls (trace st)"
  obtains actid tx am c n where
    "resolve st actmeta (with_default so msg) = Some am"
    "\<forall>k. k \<noteq> ''meta$'' \<longrightarrow>
         get c k = get (snd (call_message so (exec_inst so inst msg)
                       ((frame_of so inst actmeta pc0 msg cb actid tx)\<lparr>f_actmeta := Some am\<rparr>) am)) k"
    "\<forall>k. k \<noteq> ''sub'' \<longrightarrow>
         jsprop (get c ''meta$'') k =
         jsprop (get (snd (call_message so (exec_inst so inst msg)
                       ((frame_of so inst actmeta pc0 msg cb actid tx)\<lparr>f_actmeta := Some am\<rparr>) am))
                   ''meta$'') k"
    "act_ids inst msg st = Inr (actid, tx, st\<lparr>nid_next := n\<rparr>)"
    "handler_calls (trace st') = handler_calls (trace st) @ [(am_id am, c)]"
  using do_act_handler [OF run] ch
  apply (elim disjE exE conjE)
   apply (erule notE, assumption)
  apply (drule meta_spec, drule meta_spec, drule meta_spec, drule meta_spec, drule meta_spec)
  apply assumption
  done

lemma alias_list_keys [simp]:
  "map fst (map (\<lambda>(k', e). if k' = k then (k', f e) else (k', e)) c) = map fst c"
  by (induction c) auto

lemma alias_list_map_of:
  "map_of (map (\<lambda>(k', e). if k' = k then (k', f e) else (k', e)) c) k' =
     (if k' = k then map_option f (map_of c k) else map_of c k')"
  by (induction c) auto

lemma alias_map_of:
  "map_of (actcache (actcache_alias k r st)) k' =
     (if k' = k then map_option (\<lambda>e. e\<lparr>ce_result := r\<rparr>) (map_of (actcache st) k)
      else map_of (actcache st) k')"
  by (simp add: actcache_alias_def alias_list_map_of)

lemma alias_keys [simp]: "map fst (actcache (actcache_alias k r st)) = map fst (actcache st)"
  by (auto simp: actcache_alias_def)

lemma lru_set_head: "map_of (lru_set mx k v c) k = Some v"
  by (cases "nat mx") (auto simp: lru_set_def)

lemma lru_set_keys: "set (map fst (lru_set mx k v c)) \<subseteq> insert k (set (map fst c))"
proof -
  have a: "fst ` set ((k, v) # AList.delete k c) \<subseteq> insert k (fst ` set c)"
    by (auto simp: AList.delete_eq)
  have b: "fst ` set (take n ((k, v) # AList.delete k c)) \<subseteq> fst ` set ((k, v) # AList.delete k c)"
    for n
    by (rule image_mono) (rule set_take_subset)
  show ?thesis
  proof (cases "mx \<le> 0")
    case True
    then have "lru_set mx k v c = (k, v) # AList.delete k c"
      by (simp add: lru_set_def)
    with a show ?thesis by (simp only: set_map)
  next
    case False
    then have "lru_set mx k v c = take (nat mx) ((k, v) # AList.delete k c)"
      by (simp add: lru_set_def)
    with subset_trans [OF b [of "nat mx"] a] show ?thesis by (simp only: set_map)
  qed
qed

lemma actcache_set_keys:
  "set (map fst (actcache (actcache_set so k v st))) \<subseteq> insert k (set (map fst (actcache st)))"
  using lru_set_keys [of "actcache_size so" k v "actcache st"]
  by (auto simp: actcache_set_def)

lemma actcache_set_head:
  "actcache_active so \<Longrightarrow> map_of (actcache (actcache_set so k v st)) k = Some v"
  by (simp add: actcache_set_def lru_set_head)

lemma small_cache [simp]:
  "actcache (bump_fails a st) = actcache st"
  "actcache (bump_done a st) = actcache st"
  "actcache (emit_log kd cs st) = actcache st"
  "actcache (die so e st) = actcache st"
  by (simp_all add: bump_fails_def bump_done_def emit_log_def die_def split: option.splits)

lemma act_done_keys:
  "map fst (actcache (act_done so fr result st)) =
     map fst (actcache (actcache_set so (f_actid fr)
                          \<lparr>ce_result = result, ce_actmeta = f_actmeta fr\<rparr> st))"
proof (cases "truthy (result_error so fr result)")
  case True
  show ?thesis
    by (simp add: act_done_error [OF True] Let_def call_actdone_other)
next
  case False
  obtain c evs where a: "act_done so fr result st =
         call_actdone so (fr\<lparr>f_callargs := c\<rparr>) (set0 JNull result)
           (bump_done (f_actstats fr) (emit_log ''act'' ''OUT''
              (actcache_alias (f_actid fr) (set0 JNull result)
                 ((actcache_set so (f_actid fr) \<lparr>ce_result = result, ce_actmeta = f_actmeta fr\<rparr> st)
                    \<lparr>trace := trace st @ EvEmit ''act-out'' (f_callargs fr) (arg_at result 1) # evs\<rparr>))))"
    using act_done_success [OF False] by blast
  show ?thesis
    by (simp add: a call_actdone_other)
qed

lemma act_done_cached:
  assumes cb: "callbacks (trace (act_done so fr result st)) = callbacks (trace st) @ [(False, r)]"
    and active: "actcache_active so"
    and ret: "case f_actdone fr of None \<Rightarrow> True | Some f \<Rightarrow> f r = None"
  shows "\<exists>e. map_of (actcache (act_done so fr result st)) (f_actid fr) = Some e \<and> ce_result e = r"
proof (cases "truthy (result_error so fr result)")
  case True
  let ?e = "format_error (result_error so fr result) (f_actmeta fr)"
  from act_done_error_proj(1) [OF True, of st] cb
  have nf: "\<not> truthy (get (f_args fr) ''fatal$'')" "\<not> consumed so (f_callargs fr) ?e"
    and r: "r = set0 ?e result"
    by (auto split: if_splits)
  from ret have ret': "case f_actdone fr of None \<Rightarrow> True | Some f \<Rightarrow> f (set0 ?e result) = None"
    unfolding r .
  show ?thesis
    by (simp add: act_done_error [OF True] Let_def nf call_actdone_returns [OF ret']
          alias_map_of actcache_set_head [OF active] r)
next
  case False
  from act_done_success_proj(1) [OF False, of st] cb have r: "r = set0 JNull result"
    by simp
  obtain c evs where a: "act_done so fr result st =
         call_actdone so (fr\<lparr>f_callargs := c\<rparr>) (set0 JNull result)
           (bump_done (f_actstats fr) (emit_log ''act'' ''OUT''
              (actcache_alias (f_actid fr) (set0 JNull result)
                 ((actcache_set so (f_actid fr) \<lparr>ce_result = result, ce_actmeta = f_actmeta fr\<rparr> st)
                    \<lparr>trace := trace st @ EvEmit ''act-out'' (f_callargs fr) (arg_at result 1) # evs\<rparr>))))"
    using act_done_success [OF False] by blast
  from ret have "case f_actdone fr of None \<Rightarrow> True | Some f \<Rightarrow> f (set0 JNull result) = None"
    unfolding r .
  then have ret': "case f_actdone (fr\<lparr>f_callargs := c\<rparr>) of None \<Rightarrow> True
                       | Some f \<Rightarrow> f (set0 JNull result) = None"
    by simp
  have "map_of (actcache ((actcache_set so (f_actid fr) \<lparr>ce_result = result, ce_actmeta = f_actmeta fr\<rparr> st)
                    \<lparr>trace := trace st @ EvEmit ''act-out'' (f_callargs fr) (arg_at result 1) # evs\<rparr>))
          (f_actid fr) = Some \<lparr>ce_result = result, ce_actmeta = f_actmeta fr\<rparr>"
    using actcache_set_head [OF active, of "f_actid fr" _ st] by simp
  then show ?thesis
    by (simp add: a call_actdone_returns [OF ret'] alias_map_of r)
qed

lemma execute_action_keys:
  "set (map fst (actcache (execute_action so fr inst st))) \<subseteq>
     insert (f_actid fr) (set (map fst (actcache st)))"
proof -
  from execute_action_shape [of so fr inst st]
  show ?thesis
  proof (elim disjE exE conjE)
    fix fr' r S
    assume a: "execute_action so fr inst st = act_done so fr' r S" "f_actid fr' = f_actid fr"
      "same_core st S"
    from a(3) have c: "actcache S = actcache st" by (simp add: same_core_def)
    from actcache_set_keys [of so "f_actid fr'" "\<lparr>ce_result = r, ce_actmeta = f_actmeta fr'\<rparr>" S]
    show ?thesis
      by (simp add: a(1) act_done_keys a(2) c)
  next
    assume "same_core st (execute_action so fr inst st)"
    then have "actcache (execute_action so fr inst st) = actcache st"
      by (simp add: same_core_def)
    then show ?thesis by auto
  qed
qed

lemma execute_action_n_cache:
  "n_cache (stats (execute_action so fr inst st)) = n_cache (stats st)"
proof -
  from execute_action_shape [of so fr inst st]
  show ?thesis
  proof (elim disjE exE conjE)
    fix fr' r S
    assume a: "execute_action so fr inst st = act_done so fr' r S" "same_core st S"
    from a(2) have "n_cache (stats S) = n_cache (stats st)" by (simp add: same_core_def)
    then show ?thesis by (simp add: a(1) act_done_other)
  next
    assume "same_core st (execute_action so fr inst st)"
    then show ?thesis by (simp add: same_core_def)
  qed
qed

lemma split_on_sep: "c \<notin> set a \<Longrightarrow> split_on c (a @ c # t) = a # split_on c t"
  by (induction a) auto

lemma or_js_truthy: "truthy x \<Longrightarrow> or_js x y = x"
  by (simp add: or_js_def)

lemma act_ids_full:
  assumes "given_id msg = JStr (a @ ''/'' @ t)" "a \<noteq> []" "t \<noteq> []"
    "CHR ''/'' \<notin> set a" "CHR ''/'' \<notin> set t"
  shows "act_ids inst msg st = Inr (a @ ''/'' @ t, JStr t, st)"
proof -
  have g: "or_js (get msg ''id$'') (get msg ''actid$'') = JStr (a @ ''/'' @ t)"
    using assms(1) by (simp add: given_id_def)
  have s: "split_on CHR ''/'' (a @ CHR ''/'' # t) = [a, t]"
    using assms(4,5) by (simp add: split_on_sep split_on_no_sep)
  show ?thesis
    unfolding act_ids_def g
    using assms(2,3) by (simp add: s or_idgen_def at_index_def or_js_truthy)
qed

lemma act_done_stored:
  assumes "actcache_active so"
  shows "f_actid fr \<in> set (map fst (actcache (act_done so fr result st)))"
proof -
  from actcache_set_head [OF assms, of "f_actid fr" "\<lparr>ce_result = result, ce_actmeta = f_actmeta fr\<rparr>" st]
  have "f_actid fr \<in> set (map fst (actcache (actcache_set so (f_actid fr)
          \<lparr>ce_result = result, ce_actmeta = f_actmeta fr\<rparr> st)))"
    by (metis map_of_eq_None_iff option.distinct(1) set_map)
  then show ?thesis by (simp only: act_done_keys)
qed


lemma call_message_fatal:
  assumes d: "distinct (map fst (fixedargs self))" and da: "distinct (map fst args)"
    and fa: "f_args fr = with_default so (extend_obj args (fixedargs self))"
  shows "get (snd (call_message so (exec_inst so self m) fr am)) ''fatal$'' =
         get (f_args fr) ''fatal$''"
proof (cases "map_of (fixedargs self) ''fatal$''")
  case (Some v)
  have "get (snd (call_message so (exec_inst so self m) fr am)) ''fatal$'' = v"
    by (rule call_message_fixed [OF exec_inst_map_of(2) [OF d Some] exec_inst_map_of(1) [OF d Some]])
       simp_all
  moreover have "get (f_args fr) ''fatal$'' = v"
    by (simp add: fa with_default_get get_extend_distinct [OF d] Some)
  ultimately show ?thesis by simp
next
  case None
  let ?args1 = "put (del (del (f_args fr) ''id$'') ''actid$'') ''meta$'' (make_meta fr am)"
  have "map_of (fixedargs (act_make_delegate so (exec_inst so self m) (f_tx fr) am)) ''fatal$'' = None"
    by (rule act_make_delegate_None [OF exec_inst_None [OF None]]) simp_all
  then have n: "map_of (rev (fixedargs (act_make_delegate so (exec_inst so self m) (f_tx fr) am)))
                  ''fatal$'' = None"
    by (simp add: map_of_rev_None)
  have "distinct (map fst (f_args fr))"
    unfolding fa by (intro distinct_with_default distinct_extend_obj da)
  then have d1: "distinct (map fst ?args1)"
    by (intro distinct_put distinct_del)
  have "get (snd (call_message so (exec_inst so self m) fr am)) ''fatal$'' =
          get (extend_obj [] ?args1) ''fatal$''"
    by (simp add: call_message_def Let_def get_extend_obj n)
  also have "\<dots> = get ?args1 ''fatal$''"
    by (rule get_extend_Nil [OF d1])
  also have "\<dots> = get (f_args fr) ''fatal$''"
    by (simp add: get_put get_del)
  finally show ?thesis .
qed


lemma handle_calls_append [simp]:
  "handle_calls (xs @ ys) = handle_calls xs @ handle_calls ys"
  by (induction xs rule: handle_calls.induct) simp_all

lemma new_actmeta_eq:
  assumes "new_actmeta so raw_pattern act meta new_id st = (am, prior, pattern)"
  shows "pattern = filter (\<lambda>(k, v). \<not> isObject v) (clean raw_pattern)"
    and "am_pattern am = common_pattern pattern"
    and "prior = select_prior (add_internal_catchall so raw_pattern) (add_strict_add so raw_pattern)
                   (common_pattern pattern) (find_action st pattern)"
    and "am_priormeta am = (case prior of None \<Rightarrow> None
                            | Some p \<Rightarrow> if am_handle p then None else Some p)"
    and "am_priorpath am = (case prior of None \<Rightarrow> []
                            | Some p \<Rightarrow> am_id p @ '';'' @ am_priorpath p)"
  using assms by (auto simp: new_actmeta_def Let_def)

lemma find_action_nid [simp]: "find_action (st\<lparr>nid_next := n\<rparr>) msg = find_action st msg"
  by (simp add: find_action_def)

lemma api_add_eq:
  assumes run: "api_add so self raw_pattern (Some act) meta st = Inr st'"
    and n: "new_actmeta so raw_pattern act meta (''('' @ nid st (nid_next st) @ '')'')
              (st\<lparr>nid_next := Suc (nid_next st)\<rparr>) = (am, prior, pattern)"
  shows "if (case prior of None \<Rightarrow> False | Some p \<Rightarrow> am_handle p)
         then handle_calls (trace st') =
                handle_calls (trace st) @ [(am_id (the prior), raw_pattern)] \<and>
              actrouter st' = actrouter st
         else handle_calls (trace st') = handle_calls (trace st) \<and>
              actrouter st' =
                router_add pattern (modify_action (action_modifiers st) am) (actrouter st)"
  using run n
  by (auto simp: api_add_def refnid_def idgen_def Let_def emit_log_def
           split: option.splits if_splits)

subsection \<open>The subscribers of a dispatch\<close>


lemma sub_events_reads:
  "sub_calls (concat (map (\<lambda>(sf, a, r). sub_events a r sf) xs)) = map (\<lambda>(sf, a, r). (fst sf, a, r)) xs"
  "length (sub_error_logs (concat (map (\<lambda>(sf, a, r). sub_events a r sf) xs))) =
     length (filter (\<lambda>(sf, a, r). snd sf a r \<noteq> None) xs)"
  "quiet (concat (map (\<lambda>(sf, a, r). sub_events a r sf) xs))"
  by (induction xs) (auto simp: sub_events_def quiet_def split: option.splits)

lemma fired_cong:
  "subrouter s = subrouter t \<Longrightarrow> handle_sub_installed s = handle_sub_installed t \<Longrightarrow>
     fired s pr m r = fired t pr m r"
  by (simp add: fired_def Let_def)

lemma fired_simps [simp]:
  "fired (st\<lparr>trace := t\<rparr>) pr m r = fired st pr m r"
  "fired (act_stats_call p st) pr m r = fired st pr m r"
  "fired (st\<lparr>nid_next := n\<rparr>) pr m r = fired st pr m r"
  by (rule fired_cong; simp add: act_stats_call_def Let_def)+

lemma emit_subs_cong:
  "subrouter s = subrouter t \<Longrightarrow> handle_sub_installed s = handle_sub_installed t \<Longrightarrow>
     fst (snd (emit_subs pr m r s)) = fst (snd (emit_subs pr m r t))"
  by (simp add: emit_subs_def handle_sub_def Let_def each_sub_eq split: option.splits)

lemma emit_subs_full:
  "emit_subs pr m r st =
     (None, fst (snd (emit_subs pr m r st)),
      st\<lparr>trace := trace st @ concat (map (\<lambda>(sf, a, r). sub_events a r sf) (fired st pr m r))\<rparr>)"
  by (simp add: emit_subs_def handle_sub_def fired_def Let_def each_sub_eq comp_def
           split: option.splits)

lemma emit_subs_msg:
  "k \<noteq> ''meta$'' \<Longrightarrow> get (fst (snd (emit_subs pr m r st))) k = get m k"
  "k \<noteq> ''sub'' \<Longrightarrow>
     jsprop (get (fst (snd (emit_subs pr m r st))) ''meta$'') k = jsprop (get m ''meta$'') k"
  using emit_subs_eq [of pr m r st] by auto

lemma fired_no_entry:
  assumes "pr \<noteq> ''meta$''" "jsprop (get m ''meta$'') ''entry'' \<noteq> JBool True"
  shows "fired st pr m r = []"
proof -
  have "get (put m pr (JBool True)) ''meta$'' = get m ''meta$''"
    using assms(1) by (simp add: get_put)
  moreover have "jsprop (or_js (get m ''meta$'') (JObj Plain [])) ''entry'' \<noteq> JBool True"
    using assms(2) by (simp add: or_js_def get_def)
  ultimately show ?thesis by (simp add: fired_def Let_def)
qed

lemma act_done_subs:
  "sub_calls (trace (act_done so fr result st)) =
     sub_calls (trace st) @
       (if truthy (result_error so fr result) then []
        else map (\<lambda>(sf, a, r). (fst sf, a, r)) (fired st ''out$'' (f_callargs fr) (arg_at result 1)))"
proof (cases "truthy (result_error so fr result)")
  case True
  then show ?thesis
    by (simp add: act_done_error Let_def call_actdone_trace)
next
  case False
  let ?st1 = "actcache_set so (f_actid fr) \<lparr>ce_result = result, ce_actmeta = f_actmeta fr\<rparr> st"
  let ?s = "?st1\<lparr>trace := trace ?st1 @ [EvEmit ''act-out'' (f_callargs fr) (arg_at result 1)]\<rparr>"
  have f: "fired ?s ''out$'' (f_callargs fr) (arg_at result 1) =
           fired st ''out$'' (f_callargs fr) (arg_at result 1)"
    by (rule fired_cong) (simp_all add: small_defs)
  define c where "c = fst (snd (emit_subs ''out$'' (f_callargs fr) (arg_at result 1) ?s))"
  have e: "emit_subs ''out$'' (f_callargs fr) (arg_at result 1) ?s =
      (None, c, ?s\<lparr>trace := trace ?s @ concat (map (\<lambda>(sf, a, r). sub_events a r sf)
                  (fired st ''out$'' (f_callargs fr) (arg_at result 1)))\<rparr>)"
    unfolding c_def f [symmetric] by (rule emit_subs_full)
  from False e
  show ?thesis
    by (simp add: act_done_def Let_def call_actdone_trace sub_events_reads)
qed

lemma execute_action_run_subs:
  assumes r: "resolve st (f_actmeta fr) (f_args fr) = Some am"
    and l: "\<not> loops so (f_args fr) am"
    and v: "validate_action_message so (f_args fr) am = None"
    and cm: "call_message so inst (fr\<lparr>f_actmeta := Some am\<rparr>) am = (args1, callargs)"
    and c: "c = fst (snd (emit_subs ''in$'' callargs JUndefined st))"
    and fr1: "fr1 = fr\<lparr>f_actmeta := Some am, f_args := args1, f_callargs := c,
                      f_actstats := Some (am_pattern am)\<rparr>"
  shows "sub_calls (trace (execute_action so fr inst st)) =
     sub_calls (trace st) @
     map (\<lambda>(sf, a, r). (fst sf, a, r)) (fired st ''in$'' callargs JUndefined) @
     (if closed st \<and> \<not> truthy (get c ''closing$'')
      then sub_calls (trace (act_done so fr1
                   [internals_error ''instance-closed'' [(''args'', JObj Plain (clean c))]]
                   (st\<lparr>trace := []\<rparr>)))
      else (case am_func am c of
              Done res \<Rightarrow> sub_calls (trace (act_done so fr1 res (st\<lparr>trace := []\<rparr>)))
            | Throw ex \<Rightarrow> sub_calls (trace (act_done so fr1 [ex] (st\<lparr>trace := []\<rparr>)))
            | NoReply \<Rightarrow> []))"
    and "handler_calls (trace (execute_action so fr inst st)) =
     handler_calls (trace st) @
     (if closed st \<and> \<not> truthy (get c ''closing$'') then [] else [(am_id am, c)])"
proof -
  let ?st2 = "act_stats_call (am_pattern am) st"
  let ?st3 = "if truthy (am_deprecate am) then emit_log ''act'' ''DEPRECATED'' ?st2 else ?st2"
  let ?st4 = "if \<not> am_sub am then emit_log ''act'' ''IN'' ?st3 else ?st3"
  let ?st5 = "?st4\<lparr>trace := trace ?st4 @ [EvEmit ''act-in'' callargs JUndefined]\<rparr>"
  let ?evs = "concat (map (\<lambda>(sf, a, r). sub_events a r sf) (fired st ''in$'' callargs JUndefined))"
  have same: "subrouter ?st5 = subrouter st" "handle_sub_installed ?st5 = handle_sub_installed st"
    by (simp_all add: small_defs act_stats_call_def Let_def emit_log_def)
  have f: "fired ?st5 ''in$'' callargs JUndefined = fired st ''in$'' callargs JUndefined"
    by (rule fired_cong [OF same])
  have c5: "fst (snd (emit_subs ''in$'' callargs JUndefined ?st5)) = c"
    unfolding c by (rule emit_subs_cong [OF same])
  have e: "emit_subs ''in$'' callargs JUndefined ?st5 = (None, c, ?st5\<lparr>trace := trace ?st5 @ ?evs\<rparr>)"
    unfolding c5 [symmetric] f [symmetric] by (rule emit_subs_full)
  let ?S = "?st2\<lparr>trace := trace st @
               (if truthy (am_deprecate am) then [EvLog ''act'' ''DEPRECATED''] else []) @
               (if \<not> am_sub am then [EvLog ''act'' ''IN''] else []) @
               EvEmit ''act-in'' callargs JUndefined # ?evs\<rparr>"
  have S: "?st5\<lparr>trace := trace ?st5 @ ?evs\<rparr> = ?S"
    by (simp add: emit_log_def)
  have cl: "closed ?S = closed st"
    by (simp add: act_stats_call_def Let_def)
  have eq: "execute_action so fr inst st =
        (if closed st \<and> \<not> truthy (get c ''closing$'')
            then act_done so fr1
                   [internals_error ''instance-closed'' [(''args'', JObj Plain (clean c))]] ?S
            else (case am_func am c of
                    Done res \<Rightarrow> act_done so fr1 res (?S\<lparr>trace := trace ?S @ [EvHandler (am_id am) c]\<rparr>)
                  | Throw ex \<Rightarrow> act_done so fr1 [ex] (?S\<lparr>trace := trace ?S @ [EvHandler (am_id am) c]\<rparr>)
                  | NoReply \<Rightarrow> ?S\<lparr>trace := trace ?S @ [EvHandler (am_id am) c]\<rparr>))"
    using r l v cm e unfolding S fr1
    by (simp add: execute_action_def Let_def resolve_def executable_action_found cl
             split: hresult.splits)
  have q: "handler_calls ?evs = []"
    using sub_events_reads(3) [of "fired st ''in$'' callargs JUndefined"] by (simp add: quiet_def)
  show "handler_calls (trace (execute_action so fr inst st)) =
     handler_calls (trace st) @
     (if closed st \<and> \<not> truthy (get c ''closing$'') then [] else [(am_id am, c)])"
    unfolding eq using q by (simp split: hresult.splits)
  show "sub_calls (trace (execute_action so fr inst st)) =
     sub_calls (trace st) @
     map (\<lambda>(sf, a, r). (fst sf, a, r)) (fired st ''in$'' callargs JUndefined) @
     (if closed st \<and> \<not> truthy (get c ''closing$'')
      then sub_calls (trace (act_done so fr1
                   [internals_error ''instance-closed'' [(''args'', JObj Plain (clean c))]]
                   (st\<lparr>trace := []\<rparr>)))
      else (case am_func am c of
              Done res \<Rightarrow> sub_calls (trace (act_done so fr1 res (st\<lparr>trace := []\<rparr>)))
            | Throw ex \<Rightarrow> sub_calls (trace (act_done so fr1 [ex] (st\<lparr>trace := []\<rparr>)))
            | NoReply \<Rightarrow> []))"
    unfolding eq
    by (simp add: act_done_subs sub_events_reads split: hresult.splits)
qed

lemma do_act_subs:
  assumes run: "do_act so inst actmeta pc0 msg cb st = Inr st'"
    and hc: "handler_calls (trace st') = handler_calls (trace st) @ [(a, c)]"
    and nm: "map_of (fixedargs inst) ''meta$'' = None"
    and dm: "distinct (map fst msg)"
  obtains m rest where
    "\<forall>k. k \<noteq> ''meta$'' \<longrightarrow> get c k = get m k"
    "\<forall>k. k \<noteq> ''sub'' \<longrightarrow> jsprop (get c ''meta$'') k = jsprop (get m ''meta$'') k"
    "jsprop (get m ''meta$'') ''entry'' = JBool (case pc0 of None \<Rightarrow> True | Some pc \<Rightarrow> entry pc)"
    "sub_calls (trace st') =
       sub_calls (trace st) @
       map (\<lambda>(sf, a, r). (fst sf, a, r)) (fired st ''in$'' m JUndefined) @ rest"
    "rest = [] \<or> (\<exists>r. rest = map (\<lambda>(sf, a, r). (fst sf, a, r)) (fired st ''out$'' c r))"
proof -
  from do_act_cases [OF run] obtain a0 tx n where
    ids: "act_ids inst msg st = Inr (a0 @ ''/'' @ to_string tx, tx, st\<lparr>nid_next := n\<rparr>)"
    and cs: "case cache_lookup so msg st of
        Some e \<Rightarrow>
          (\<exists>k. given_id msg = JStr k \<and>
            st' = st\<lparr>nid_next := n, actcache := (k, e) # AList.delete k (actcache st),
                     stats := (stats st)\<lparr>n_cache := Suc (n_cache (stats st))\<rparr>,
                     trace := trace st @ [EvLog ''act'' ''CACHE'', EvCallback True (ce_result e)]\<rparr>)
      | None \<Rightarrow>
          st' = execute_action so
                  (frame_of so inst actmeta pc0 msg cb (a0 @ ''/'' @ to_string tx) tx)
                  (exec_inst so inst msg) (st\<lparr>nid_next := n\<rparr>)"
    by blast
  define actid where "actid = a0 @ ''/'' @ to_string tx"
  define FR where "FR = frame_of so inst actmeta pc0 msg cb actid tx"
  define I where "I = exec_inst so inst msg"
  define S where "S = st\<lparr>nid_next := n\<rparr>"
  have st': "st' = execute_action so FR I S"
  proof (cases "cache_lookup so msg st")
    case None
    with cs show ?thesis by (simp add: FR_def I_def S_def actid_def)
  next
    case (Some e)
    with cs hc show ?thesis by auto
  qed
  have tS: "trace S = trace st" by (simp add: S_def)
  from execute_action_handler [of so FR I S] hc
  obtain am where r: "resolve S (f_actmeta FR) (f_args FR) = Some am"
    and l: "\<not> loops so (f_args FR) am"
    and v: "validate_action_message so (f_args FR) am = None"
    unfolding st' [symmetric] tS by auto
  obtain args1 callargs where
    cm: "call_message so I (FR\<lparr>f_actmeta := Some am\<rparr>) am = (args1, callargs)"
    by (cases "call_message so I (FR\<lparr>f_actmeta := Some am\<rparr>) am")
  define c' where "c' = fst (snd (emit_subs ''in$'' callargs JUndefined S))"
  define fr1 where "fr1 = FR\<lparr>f_actmeta := Some am, f_args := args1, f_callargs := c',
                      f_actstats := Some (am_pattern am)\<rparr>"
  note e = execute_action_run_subs [OF r l v cm c'_def fr1_def]
  from e(2) hc have nc: "\<not> (closed S \<and> \<not> truthy (get c' ''closing$''))" and cc: "c' = c"
    unfolding st' [symmetric] tS by (auto split: if_splits)
  define rest where "rest = (case am_func am c of
              Done res \<Rightarrow> sub_calls (trace (act_done so fr1 res (S\<lparr>trace := []\<rparr>)))
            | Throw ex \<Rightarrow> sub_calls (trace (act_done so fr1 [ex] (S\<lparr>trace := []\<rparr>)))
            | NoReply \<Rightarrow> [])"
  have fc: "f_callargs fr1 = c" by (simp add: fr1_def cc)
  have rest: "rest = [] \<or> (\<exists>r. rest = map (\<lambda>(sf, a, r). (fst sf, a, r)) (fired st ''out$'' c r))"
    unfolding rest_def by (cases "am_func am c") (auto simp: act_done_subs fc S_def)
  have subs: "sub_calls (trace st') =
       sub_calls (trace st) @
       map (\<lambda>(sf, a, r). (fst sf, a, r)) (fired st ''in$'' callargs JUndefined) @ rest"
  proof -
    have fS: "fired S pr x y = fired st pr x y" for pr x y by (simp add: S_def)
    from nc have "\<not> (closed S \<and> \<not> truthy (get c ''closing$''))" by (simp add: cc)
    with e(1) show ?thesis
      unfolding st' [symmetric] tS rest_def cc fS by (simp only: if_False)
  qed
  have m1: "\<forall>k. k \<noteq> ''meta$'' \<longrightarrow> get c k = get callargs k"
    unfolding cc [symmetric] c'_def by (simp add: emit_subs_msg)
  have m2: "\<forall>k. k \<noteq> ''sub'' \<longrightarrow> jsprop (get c ''meta$'') k = jsprop (get callargs ''meta$'') k"
    unfolding cc [symmetric] c'_def by (simp add: emit_subs_msg)
  have "get (snd (call_message so I (FR\<lparr>f_actmeta := Some am\<rparr>) am)) ''meta$'' =
          make_meta (FR\<lparr>f_actmeta := Some am\<rparr>) am"
    by (rule call_message_meta)
       (simp_all add: I_def FR_def exec_inst_None [OF nm] distinct_with_default [OF dm])
  then have "get callargs ''meta$'' = make_meta (FR\<lparr>f_actmeta := Some am\<rparr>) am"
    by (simp add: cm)
  then have m3: "jsprop (get callargs ''meta$'') ''entry'' =
                   JBool (case pc0 of None \<Rightarrow> True | Some pc \<Rightarrow> entry pc)"
    by (simp add: FR_def split: option.splits)
  from m1 m2 m3 subs rest show ?thesis by (rule that)
qed

lemma execute_action_no_entry:
  assumes ne: "\<not> entry (f_prior_ctxt fr)"
    and um: "jsprop (get (f_callargs fr) ''meta$'') ''entry'' \<noteq> JBool True"
    and nm: "map_of (fixedargs inst) ''meta$'' = None"
    and dm: "distinct (map fst (f_args fr))"
  shows "sub_calls (trace (execute_action so fr inst st)) = sub_calls (trace st)"
proof -
  have out: "sub_calls (trace (act_done so (fr\<lparr>f_actmeta := x\<rparr>) res s)) = sub_calls (trace s)"
    for x res s
    using um by (simp add: act_done_subs fired_no_entry)
  show ?thesis
  proof (cases "resolve st (f_actmeta fr) (f_args fr)")
    case None
    then show ?thesis by (simp add: execute_action_notfound out)
  next
    case (Some am)
    show ?thesis
    proof (cases "loops so (f_args fr) am")
      case True
      with Some show ?thesis by (simp add: execute_action_loop out)
    next
      case False
      show ?thesis
      proof (cases "validate_action_message so (f_args fr) am")
        case (Some err)
        with False \<open>resolve st (f_actmeta fr) (f_args fr) = Some am\<close> show ?thesis
          by (simp add: execute_action_invalid out)
      next
        case None
        obtain args1 callargs where
          cm: "call_message so inst (fr\<lparr>f_actmeta := Some am\<rparr>) am = (args1, callargs)"
          by (cases "call_message so inst (fr\<lparr>f_actmeta := Some am\<rparr>) am")
        define c where "c = fst (snd (emit_subs ''in$'' callargs JUndefined st))"
        define fr1 where "fr1 = fr\<lparr>f_actmeta := Some am, f_args := args1, f_callargs := c,
                      f_actstats := Some (am_pattern am)\<rparr>"
        note e = execute_action_run_subs [OF Some False None cm c_def fr1_def]
        have "get (snd (call_message so inst (fr\<lparr>f_actmeta := Some am\<rparr>) am)) ''meta$'' =
                make_meta (fr\<lparr>f_actmeta := Some am\<rparr>) am"
          by (rule call_message_meta) (simp_all add: nm dm)
        then have "get callargs ''meta$'' = make_meta (fr\<lparr>f_actmeta := Some am\<rparr>) am"
          by (simp add: cm)
        then have m: "jsprop (get callargs ''meta$'') ''entry'' \<noteq> JBool True"
          using ne by simp
        then have mc: "jsprop (get c ''meta$'') ''entry'' \<noteq> JBool True"
          by (simp add: c_def emit_subs_msg)
        have i: "fired st ''in$'' callargs JUndefined = []"
          using m by (simp add: fired_no_entry)
        have o: "sub_calls (trace (act_done so fr1 res s)) = sub_calls (trace s)" for res s
          using mc by (simp add: act_done_subs fired_no_entry fr1_def)
        show ?thesis
          unfolding e(1) i by (simp add: o split: hresult.splits)
      qed
    qed
  qed
qed

lemma do_act_no_entry:
  assumes run: "do_act so inst actmeta (Some pc) msg cb st = Inr st'"
    and ne: "\<not> entry pc"
    and um: "jsprop (get msg ''meta$'') ''entry'' \<noteq> JBool True"
    and nm: "map_of (fixedargs inst) ''meta$'' = None"
    and dm: "distinct (map fst msg)"
  shows "sub_calls (trace st') = sub_calls (trace st)"
proof -
  from do_act_cases [OF run] obtain a0 tx n where
    cs: "case cache_lookup so msg st of
        Some e \<Rightarrow>
          (\<exists>k. given_id msg = JStr k \<and>
            st' = st\<lparr>nid_next := n, actcache := (k, e) # AList.delete k (actcache st),
                     stats := (stats st)\<lparr>n_cache := Suc (n_cache (stats st))\<rparr>,
                     trace := trace st @ [EvLog ''act'' ''CACHE'', EvCallback True (ce_result e)]\<rparr>)
      | None \<Rightarrow>
          st' = execute_action so
                  (frame_of so inst actmeta (Some pc) msg cb (a0 @ ''/'' @ to_string tx) tx)
                  (exec_inst so inst msg) (st\<lparr>nid_next := n\<rparr>)"
    by blast
  define FR where "FR = frame_of so inst actmeta (Some pc) msg cb (a0 @ ''/'' @ to_string tx) tx"
  show ?thesis
  proof (cases "cache_lookup so msg st")
    case (Some e)
    with cs show ?thesis by auto
  next
    case None
    with cs have st': "st' = execute_action so FR (exec_inst so inst msg) (st\<lparr>nid_next := n\<rparr>)"
      by (simp add: FR_def)
    have "sub_calls (trace (execute_action so FR (exec_inst so inst msg) (st\<lparr>nid_next := n\<rparr>))) =
          sub_calls (trace (st\<lparr>nid_next := n\<rparr>))"
      by (rule execute_action_no_entry)
         (simp_all add: FR_def ne um exec_inst_None [OF nm] distinct_with_default [OF dm]
            with_default_get)
    then show ?thesis by (simp add: st')
  qed
qed

lemma delegate_prior_subs:
  assumes run: "delegate_prior so d tx callargs am pc prior_args prior_cb st = Inr st'"
    and nm: "map_of (fixedargs d) ''meta$'' = None"
    and dm: "distinct (map fst prior_args)"
  shows "sub_calls (trace st') = sub_calls (trace st)"
proof (cases "am_priormeta am")
  case None
  with run show ?thesis
    by (auto simp: delegate_prior_def Let_def split: option.splits)
next
  case (Some pm)
  let ?a1 = "del (del (del (del (del prior_args ''id$'') ''gate$'') ''actid$'') ''meta$'')
                        ''transport$''"
  let ?a2 = "if truthy (get callargs ''default$'')
                     then put ?a1 ''default$'' (get callargs ''default$'') else ?a1"
  let ?a3 = "put ?a2 ''tx$'' tx"
  let ?pc = "pc\<lparr>chain := chain pc @ [am_id am], entry := False, depth := depth pc + 1\<rparr>"
  from run Some have r: "do_act so d (Some pm) (Some ?pc) ?a3 prior_cb st = Inr st'"
    by (simp add: delegate_prior_def Let_def)
  have u: "get ?a3 ''meta$'' = JUndefined"
    by (simp add: get_put get_del)
  have dd: "distinct (map fst ?a3)"
    by (simp add: distinct_put distinct_del dm)
  show ?thesis
    by (rule do_act_no_entry [OF r _ _ nm dd]) (simp_all add: u)
qed

lemma most_specific_map:
  "most_specific (map (\<lambda>(q, e). (q, f e)) xs) = map_option (\<lambda>(q, e). (q, f e)) (most_specific xs)"
  by (induction xs) (auto split: option.splits)

lemma most_specific_None: "most_specific xs = None \<longleftrightarrow> xs = []"
  by (cases xs) (auto split: option.splits)

lemma router_find_map:
  "router_find (map (\<lambda>(q, e). (q, f e)) r) m = map_option f (router_find r m)"
proof -
  have "filter (\<lambda>(pat, d). pattern_matches pat m) (map (\<lambda>(q, e). (q, f e)) r) =
        map (\<lambda>(q, e). (q, f e)) (filter (\<lambda>(pat, d). pattern_matches pat m) r)"
    by (induction r) auto
  then show ?thesis
    by (cases "most_specific (filter (\<lambda>(pat, d). pattern_matches pat m) r)")
       (auto simp: router_find_def most_specific_map)
qed

lemma router_find_add:
  assumes "router_find r p = None" "pattern_matches p p"
  shows "router_find (router_add p d r) p = Some d"
proof -
  from assms(1) have "filter (\<lambda>(pat, d). pattern_matches pat p) r = []"
    by (simp add: router_find_def most_specific_None)
  then have "filter (\<lambda>(pat, d). pattern_matches pat p) (filter (\<lambda>(q, e). set q \<noteq> set p) r) = []"
    by (simp add: filter_empty_conv)
  with assms(2) show ?thesis
    by (simp add: router_find_def router_add_def)
qed

lemma api_sub_find:
  assumes P: "P = (if is_nullish (get p ''in$'') \<and> is_nullish (get p ''out$'') \<and>
                is_nullish (get p ''error$'') \<and> is_nullish (get p ''cache$'') \<and>
                is_nullish (get p ''default$'') \<and> is_nullish (get p ''client$'')
             then put p ''in$'' (JBool True) else p)"
    and m: "pattern_matches P P"
  shows "\<exists>sl. router_find (subrouter (api_sub p sf st)) P = Some sl \<and>
           subs_funcs sl =
             (case router_find (subrouter st) P of None \<Rightarrow> [] | Some f \<Rightarrow> subs_funcs f) @ [sf]"
    and "handle_sub_installed (api_sub p sf st)"
proof -
  show "handle_sub_installed (api_sub p sf st)"
    by (simp add: api_sub_def Let_def split: option.splits)
  show "\<exists>sl. router_find (subrouter (api_sub p sf st)) P = Some sl \<and>
           subs_funcs sl =
             (case router_find (subrouter st) P of None \<Rightarrow> [] | Some f \<Rightarrow> subs_funcs f) @ [sf]"
  proof (cases "router_find (subrouter st) P")
    case None
    then have "subrouter (api_sub p sf st) =
        router_add P \<lparr>subs_pattern = common_pattern P, subs_funcs = [sf]\<rparr> (subrouter st)"
      unfolding P by (simp add: api_sub_def Let_def)
    with None show ?thesis by (simp add: router_find_add [OF None m])
  next
    case (Some found)
    let ?f = "\<lambda>e. if subs_pattern e = subs_pattern found
                   then e\<lparr>subs_funcs := subs_funcs e @ [sf]\<rparr> else e"
    have eqf: "(\<lambda>(q, e). if subs_pattern e = subs_pattern found
                                 then (q, e\<lparr>subs_funcs := subs_funcs e @ [sf]\<rparr>)
                                 else (q, e)) = (\<lambda>(q, e). (q, ?f e))"
      by (auto simp: fun_eq_iff)
    from Some have "subrouter (api_sub p sf st) =
        map (\<lambda>(q, e). if subs_pattern e = subs_pattern found
                                 then (q, e\<lparr>subs_funcs := subs_funcs e @ [sf]\<rparr>)
                                 else (q, e)) (subrouter st)"
      unfolding P by (simp add: api_sub_def Let_def)
    then have "subrouter (api_sub p sf st) = map (\<lambda>(q, e). (q, ?f e)) (subrouter st)"
      unfolding eqf .
    with Some show ?thesis by (simp add: router_find_map)
  qed
qed

lemma api_sub_installed [simp]: "handle_sub_installed (api_sub p sf st)"
  by (simp add: api_sub_def Let_def split: option.splits)

subsection \<open>The errors the error handler is called with\<close>


lemma cont_observed:
  "errhandler so = Some h \<Longrightarrow>
     act_errs (cont_events so fr r) = errhandler_calls (cont_events so fr r)"
  by (simp add: cont_events_def cb_error_events_def split: option.splits)

lemma act_done_observed:
  assumes eh: "errhandler so = Some h"
    and ag: "truthy (get (f_callargs fr) ''fatal$'') \<longrightarrow> truthy (get (f_args fr) ''fatal$'')"
  shows "\<exists>errs obs.
      act_errs (trace (act_done so fr r st)) = act_errs (trace st) @ errs \<and>
      errhandler_calls (trace (act_done so fr r st)) = errhandler_calls (trace st) @ obs \<and>
      set errs \<subseteq> set obs"
proof (cases "truthy (result_error so fr r)")
  case True
  let ?e = "format_error (result_error so fr r) (f_actmeta fr)"
  let ?errs = "?e # (if truthy (get (f_args fr) ''fatal$'') \<or> consumed so (f_callargs fr) ?e then []
                     else act_errs (cont_events so fr (set0 ?e r)))"
  let ?obs = "errhandler_calls (eh_events so (f_callargs fr) ?e) @
       (if truthy (get (f_args fr) ''fatal$'')
        then errhandler_calls (die_events so ?e)
        else if consumed so (f_callargs fr) ?e then []
        else errhandler_calls (cont_events so fr (set0 ?e r)))"
  have a: "act_errs (trace (act_done so fr r st)) = act_errs (trace st) @ ?errs"
    using True by (simp add: act_done_error Let_def call_actdone_trace)
  have b: "errhandler_calls (trace (act_done so fr r st)) = errhandler_calls (trace st) @ ?obs"
    using act_done_error_errhandler [OF True] .
  have c: "set ?errs \<subseteq> set ?obs"
    using eh ag by (auto simp: eh_events_def cont_observed [OF eh])
  show ?thesis
    by (rule exI [of _ ?errs], rule exI [of _ ?obs]) (rule conjI [OF a conjI [OF b c]])
next
  case False
  from act_done_success [OF False] obtain c evs where
    a: "act_done so fr r st =
           call_actdone so (fr\<lparr>f_callargs := c\<rparr>) (set0 JNull r)
             (bump_done (f_actstats fr) (emit_log ''act'' ''OUT''
                (actcache_alias (f_actid fr) (set0 JNull r)
                   ((actcache_set so (f_actid fr) \<lparr>ce_result = r, ce_actmeta = f_actmeta fr\<rparr> st)
                      \<lparr>trace := trace st @ EvEmit ''act-out'' (f_callargs fr) (arg_at r 1) # evs\<rparr>))))"
    and q: "quiet evs"
    by blast
  let ?ce = "cont_events so (fr\<lparr>f_callargs := c\<rparr>) (set0 JNull r)"
  have x: "act_errs (trace (act_done so fr r st)) = act_errs (trace st) @ act_errs ?ce"
    by (simp add: a call_actdone_trace quiet_proj [OF q])
  have y: "errhandler_calls (trace (act_done so fr r st)) =
           errhandler_calls (trace st) @ errhandler_calls ?ce"
    by (simp add: a call_actdone_trace quiet_proj [OF q])
  have z: "set (act_errs ?ce) \<subseteq> set (errhandler_calls ?ce)"
    by (simp add: cont_observed [OF eh])
  show ?thesis
    by (rule exI [of _ "act_errs ?ce"], rule exI [of _ "errhandler_calls ?ce"])
       (rule conjI [OF x conjI [OF y z]])
qed

lemma execute_action_observed:
  assumes eh: "errhandler so = Some h"
    and a0: "truthy (get (f_callargs fr) ''fatal$'') \<longrightarrow> truthy (get (f_args fr) ''fatal$'')"
    and a1: "\<And>am. truthy (get (snd (call_message so inst (fr\<lparr>f_actmeta := Some am\<rparr>) am)) ''fatal$'')
                  \<longrightarrow> truthy (get (f_args fr) ''fatal$'')"
  shows "\<exists>errs obs.
      act_errs (trace (execute_action so fr inst st)) = act_errs (trace st) @ errs \<and>
      errhandler_calls (trace (execute_action so fr inst st)) = errhandler_calls (trace st) @ obs \<and>
      set errs \<subseteq> set obs"
proof -
  have done0: "\<exists>errs obs.
      act_errs (trace (act_done so (fr\<lparr>f_actmeta := x\<rparr>) r S)) = act_errs (trace st) @ errs \<and>
      errhandler_calls (trace (act_done so (fr\<lparr>f_actmeta := x\<rparr>) r S)) =
        errhandler_calls (trace st) @ obs \<and>
      set errs \<subseteq> set obs"
    if "act_errs (trace S) = act_errs (trace st)"
       "errhandler_calls (trace S) = errhandler_calls (trace st)" for x r S
    using act_done_observed [OF eh, of "fr\<lparr>f_actmeta := x\<rparr>" r S] a0 that by simp
  show ?thesis
  proof (cases "resolve st (f_actmeta fr) (f_args fr)")
    case None
    show ?thesis
    proof (cases "\<not> (isPlainObject (get (f_args fr) ''default$'') \<or>
                      isArray (get (f_args fr) ''default$'')) \<and>
                  truthy (get (f_args fr) ''fatal$'')")
      case True
      with None have "execute_action so fr inst st =
          die so (notfound_error (get (f_args fr) ''default$'')) st"
        by (simp add: execute_action_notfound)
      then show ?thesis by simp
    next
      case False
      let ?d = "get (f_args fr) ''default$''"
      show ?thesis
      proof (cases "isPlainObject ?d \<or> isArray ?d")
        case True
        with None have eq: "execute_action so fr inst st =
            act_done so (fr\<lparr>f_actmeta := None\<rparr>) [JNull, ?d] (emit_log ''act'' ''DEFAULT'' st)"
          by (simp add: execute_action_notfound)
        show ?thesis unfolding eq by (rule done0) simp_all
      next
        case nd: False
        with None False have eq: "execute_action so fr inst st =
            act_done so (fr\<lparr>f_actmeta := None\<rparr>) [notfound_error ?d]
              (if trace_unknown so then emit_log ''act'' ''UNKNOWN'' st else st)"
          by (simp add: execute_action_notfound)
        show ?thesis unfolding eq by (rule done0) simp_all
      qed
    qed
  next
    case (Some am)
    show ?thesis
    proof (cases "loops so (f_args fr) am")
      case True
      with Some have eq: "execute_action so fr inst st =
          act_done so (fr\<lparr>f_actmeta := Some am\<rparr>) [loop_error (f_args fr) am] st"
        by (simp add: execute_action_loop)
      show ?thesis unfolding eq by (rule done0) simp_all
    next
      case False
      show ?thesis
      proof (cases "validate_action_message so (f_args fr) am")
        case (Some err)
        with False \<open>resolve st (f_actmeta fr) (f_args fr) = Some am\<close>
        have eq: "execute_action so fr inst st = act_done so (fr\<lparr>f_actmeta := Some am\<rparr>) [err] st"
          by (simp add: execute_action_invalid)
        show ?thesis unfolding eq by (rule done0) simp_all
      next
        case None
        obtain args1 callargs where
          cm: "call_message so inst (fr\<lparr>f_actmeta := Some am\<rparr>) am = (args1, callargs)"
          by (cases "call_message so inst (fr\<lparr>f_actmeta := Some am\<rparr>) am")
        from execute_action_run [OF Some False None cm]
        obtain c evs S where r:
          "quiet evs"
          "\<forall>k. k \<noteq> ''meta$'' \<longrightarrow> get c k = get callargs k"
          "S = (act_stats_call (am_pattern am) st)
            \<lparr>trace := trace st @
               (if truthy (am_deprecate am) then [EvLog ''act'' ''DEPRECATED''] else []) @
               (if \<not> am_sub am then [EvLog ''act'' ''IN''] else []) @
               EvEmit ''act-in'' callargs JUndefined # evs\<rparr>"
          "execute_action so fr inst st =
            (let fr1 = fr\<lparr>f_actmeta := Some am, f_args := args1, f_callargs := c,
                      f_actstats := Some (am_pattern am)\<rparr>
             in if closed st \<and> \<not> truthy (get c ''closing$'')
                then act_done so fr1
                   [internals_error ''instance-closed'' [(''args'', JObj Plain (clean c))]] S
                else (case am_func am c of
                    Done res \<Rightarrow> act_done so fr1 res (S\<lparr>trace := trace S @ [EvHandler (am_id am) c]\<rparr>)
                  | Throw ex \<Rightarrow> act_done so fr1 [ex] (S\<lparr>trace := trace S @ [EvHandler (am_id am) c]\<rparr>)
                  | NoReply \<Rightarrow> S\<lparr>trace := trace S @ [EvHandler (am_id am) c]\<rparr>))"
          by blast
        define fr1 where "fr1 = fr\<lparr>f_actmeta := Some am, f_args := args1, f_callargs := c,
                      f_actstats := Some (am_pattern am)\<rparr>"
        have S: "act_errs (trace S) = act_errs (trace st)"
          "errhandler_calls (trace S) = errhandler_calls (trace st)"
          using r(1) by (simp_all add: r(3) quiet_def)
        have "args1 = put (del (del (f_args fr) ''id$'') ''actid$'') ''meta$''
                        (make_meta (fr\<lparr>f_actmeta := Some am\<rparr>) am)"
          using cm by (simp add: call_message_def Let_def)
        then have g1: "get args1 ''fatal$'' = get (f_args fr) ''fatal$''"
          by (simp add: get_put get_del)
        have g2: "get c ''fatal$'' = get callargs ''fatal$''"
          using r(2) by simp
        have ag: "truthy (get (f_callargs fr1) ''fatal$'') \<longrightarrow> truthy (get (f_args fr1) ''fatal$'')"
          using a1 [of am] by (simp add: fr1_def g1 g2 cm)
        have done1: "\<exists>errs obs.
            act_errs (trace (act_done so fr1 x T)) = act_errs (trace st) @ errs \<and>
            errhandler_calls (trace (act_done so fr1 x T)) = errhandler_calls (trace st) @ obs \<and>
            set errs \<subseteq> set obs"
          if "act_errs (trace T) = act_errs (trace st)"
             "errhandler_calls (trace T) = errhandler_calls (trace st)" for x T
          using act_done_observed [OF eh ag, of x T] that by simp
        have e: "execute_action so fr inst st =
            (if closed st \<and> \<not> truthy (get c ''closing$'')
                then act_done so fr1
                   [internals_error ''instance-closed'' [(''args'', JObj Plain (clean c))]] S
                else (case am_func am c of
                    Done res \<Rightarrow> act_done so fr1 res (S\<lparr>trace := trace S @ [EvHandler (am_id am) c]\<rparr>)
                  | Throw ex \<Rightarrow> act_done so fr1 [ex] (S\<lparr>trace := trace S @ [EvHandler (am_id am) c]\<rparr>)
                  | NoReply \<Rightarrow> S\<lparr>trace := trace S @ [EvHandler (am_id am) c]\<rparr>))"
          using r(4) unfolding fr1_def Let_def .
        let ?T = "S\<lparr>trace := trace S @ [EvHandler (am_id am) c]\<rparr>"
        have T: "act_errs (trace ?T) = act_errs (trace st)"
          "errhandler_calls (trace ?T) = errhandler_calls (trace st)"
          using S by simp_all
        show ?thesis
        proof (cases "closed st \<and> \<not> truthy (get c ''closing$'')")
          case True
          then have eq: "execute_action so fr inst st = act_done so fr1
                   [internals_error ''instance-closed'' [(''args'', JObj Plain (clean c))]] S"
            by (simp add: e)
          show ?thesis unfolding eq by (rule done1 [OF S])
        next
          case nc: False
          have e: "execute_action so fr inst st =
              (case am_func am c of
                 Done res \<Rightarrow> act_done so fr1 res ?T
               | Throw ex \<Rightarrow> act_done so fr1 [ex] ?T
               | NoReply \<Rightarrow> ?T)"
            using e unfolding if_not_P [OF nc] .
          show ?thesis
          proof (cases "am_func am c")
            case (Done res)
            then have eq: "execute_action so fr inst st = act_done so fr1 res ?T"
              by (simp add: e)
            show ?thesis unfolding eq by (rule done1 [OF T])
          next
            case (Throw ex)
            then have eq: "execute_action so fr inst st = act_done so fr1 [ex] ?T"
              by (simp add: e)
            show ?thesis unfolding eq by (rule done1 [OF T])
          next
            case NoReply
            then have eq: "execute_action so fr inst st = ?T"
              by (simp add: e)
            show ?thesis unfolding eq using T by simp
          qed
        qed
      qed
    qed
  qed
qed

lemma api_act_observed:
  assumes eh: "errhandler so = Some h"
    and run: "api_act so self args cb st = Inr st'"
    and d: "distinct (map fst (fixedargs self))" and da: "distinct (map fst args)"
  shows "\<exists>errs obs.
      act_errs (trace st') = act_errs (trace st) @ errs \<and>
      errhandler_calls (trace st') = errhandler_calls (trace st) @ obs \<and>
      set errs \<subseteq> set obs"
proof -
  let ?msg = "extend_obj args (fixedargs self)"
  from run have run': "do_act so self None None ?msg cb st = Inr st'"
    by (simp add: api_act_def)
  from do_act_cases [OF run'] obtain a0 tx n where
    cs: "case cache_lookup so ?msg st of
        Some e \<Rightarrow>
          (\<exists>k. given_id ?msg = JStr k \<and>
            st' = st\<lparr>nid_next := n, actcache := (k, e) # AList.delete k (actcache st),
                     stats := (stats st)\<lparr>n_cache := Suc (n_cache (stats st))\<rparr>,
                     trace := trace st @ [EvLog ''act'' ''CACHE'', EvCallback True (ce_result e)]\<rparr>)
      | None \<Rightarrow>
          st' = execute_action so
                  (frame_of so self None None ?msg cb (a0 @ ''/'' @ to_string tx) tx)
                  (exec_inst so self ?msg) (st\<lparr>nid_next := n\<rparr>)"
    by blast
  define FR where "FR = frame_of so self None None ?msg cb (a0 @ ''/'' @ to_string tx) tx"
  show ?thesis
  proof (cases "cache_lookup so ?msg st")
    case (Some e)
    with cs show ?thesis by auto
  next
    case None
    with cs have st': "st' = execute_action so FR (exec_inst so self ?msg) (st\<lparr>nid_next := n\<rparr>)"
      by (simp add: FR_def)
    have a1: "truthy (get (snd (call_message so (exec_inst so self ?msg) (FR\<lparr>f_actmeta := Some am\<rparr>) am))
                 ''fatal$'') \<longrightarrow> truthy (get (f_args FR) ''fatal$'')" for am
      using call_message_fatal [OF d da, of "FR\<lparr>f_actmeta := Some am\<rparr>" so ?msg am]
      by (simp add: FR_def)
    have a0: "truthy (get (f_callargs FR) ''fatal$'') \<longrightarrow> truthy (get (f_args FR) ''fatal$'')"
      by (simp add: FR_def)
    from execute_action_observed [OF eh a0 a1, of "st\<lparr>nid_next := n\<rparr>"]
    show ?thesis by (simp add: st')
  qed
qed

section \<open>The claims\<close>

subsection \<open>C1: the empty pattern\<close>

text \<open>
  Claim C1 says that \<^verbatim>\<open>add\<close> fails with \<^verbatim>\<open>add_empty_pattern\<close> when the
  cleaned pattern has no keys. The guard of \<open>api_add\<close> tests the truthiness of the array
  \<^verbatim>\<open>_.keys(pattern)\<close>, and an array is truthy also when it is empty: for every
  pattern whose cleaned form has no keys, \<open>api_add\<close> returns normally.
\<close>

theorem add_accepts_empty_pattern:
  "keys (clean raw_pattern) = [] \<Longrightarrow>
     \<exists>st'. api_add so self raw_pattern action_opt meta st = Inr st'"
  by (simp add: api_add_def Let_def split: prod.splits)

theorem add_accepts_empty_pattern_witness:
  "keys (clean [(''deprecate$'', JBool True)]) = [] \<and>
   (\<exists>st'. api_add default_options root_instance [(''deprecate$'', JBool True)]
             (Some echo_action) no_meta new_state = Inr st')"
  using add_accepts_empty_pattern
          [of "[(''deprecate$'', JBool True)]" default_options root_instance
              "Some echo_action" no_meta new_state]
  by (simp add: keys_def clean_def reserved_def)

subsection \<open>C2: fixed arguments\<close>

text \<open>
  Claim C2, as amended. In \<^verbatim>\<open>act\<close> the fixed arguments of the instance are written
  over the message whatever \<^verbatim>\<open>strict.fixedargs\<close> is. The message \<open>msg\<close> that is
  dispatched has, for every name the instance fixes, the fixed value, and the caller's value
  for every other name; the action whose handler the call runs is the one that the router
  finds for \<open>msg\<close>; and the handler gets, for every name that the instance fixes (other than
  \<^verbatim>\<open>tx$\<close>, \<^verbatim>\<open>plugin$\<close> and \<^verbatim>\<open>meta$\<close>, which the dispatcher sets), the fixed
  value, not the caller's. \<^verbatim>\<open>strict.fixedargs\<close> decides the merge made by
  \<^verbatim>\<open>delegate\<close>: when it is on, the fixed arguments of the instance win over those given
  to \<^verbatim>\<open>delegate\<close>, and when it is off the given ones win. (Objects have one binding
  per name.)
\<close>

theorem fixedargs_win_in_act:
  assumes d: "distinct (map fst (fixedargs self))"
    and run: "api_act so self args cb st = Inr st'"
    and hc: "handler_calls (trace st') = handler_calls (trace st) @ [(a, m)]"
  shows "(let msg = extend_obj args (fixedargs self)
          in (\<forall>k. get msg k = (case map_of (fixedargs self) k of Some v \<Rightarrow> v | None \<Rightarrow> get args k)) \<and>
             (\<exists>am. find_action st msg = Some am \<and> am_id am = a) \<and>
             (\<forall>k v. map_of (fixedargs self) k = Some v \<and>
                    k \<noteq> ''tx$'' \<and> k \<noteq> ''plugin$'' \<and> k \<noteq> ''meta$'' \<longrightarrow> get m k = v)) \<and>
         (\<forall>f j. distinct (map fst f) \<longrightarrow>
            get (fixedargs (api_delegate so self f)) j =
              (if strict_fixedargs so
               then (case map_of (fixedargs self) j of Some w \<Rightarrow> w | None \<Rightarrow> get f j)
               else (case map_of f j of Some w \<Rightarrow> w | None \<Rightarrow> get (fixedargs self) j)))"
proof -
  define msg where "msg = extend_obj args (fixedargs self)"
  from run have run': "do_act so self None None msg cb st = Inr st'"
    by (simp add: api_act_def msg_def)
  from hc have ch: "handler_calls (trace st') \<noteq> handler_calls (trace st)"
    by simp
  have c1: "\<forall>k. get msg k = (case map_of (fixedargs self) k of Some v \<Rightarrow> v | None \<Rightarrow> get args k)"
    by (simp add: msg_def get_extend_distinct [OF d])
  have c23: "(\<exists>am. find_action st msg = Some am \<and> am_id am = a) \<and>
             (\<forall>k v. map_of (fixedargs self) k = Some v \<and>
                    k \<noteq> ''tx$'' \<and> k \<noteq> ''plugin$'' \<and> k \<noteq> ''meta$'' \<longrightarrow> get m k = v)"
  proof (rule do_act_handler_changed [OF run' ch])
    fix actid tx am c n
    assume h: "resolve st None (with_default so msg) = Some am"
      "\<forall>k. k \<noteq> ''meta$'' \<longrightarrow>
         get c k = get (snd (call_message so (exec_inst so self msg)
                       ((frame_of so self None None msg cb actid tx)\<lparr>f_actmeta := Some am\<rparr>) am)) k"
      "\<forall>k. k \<noteq> ''sub'' \<longrightarrow>
         jsprop (get c ''meta$'') k =
         jsprop (get (snd (call_message so (exec_inst so self msg)
                       ((frame_of so self None None msg cb actid tx)\<lparr>f_actmeta := Some am\<rparr>) am))
                   ''meta$'') k"
      "act_ids self msg st = Inr (actid, tx, st\<lparr>nid_next := n\<rparr>)"
      "handler_calls (trace st') = handler_calls (trace st) @ [(am_id am, c)]"
    from h(5) hc have ac: "a = am_id am" "m = c" by simp_all
    from h(1) have "resolve st None msg = Some am"
      by (simp only: resolve_with_default)
    then have "find_action st msg = Some am"
      by (simp add: resolve_def)
    with ac(1) have r: "\<exists>am. find_action st msg = Some am \<and> am_id am = a"
      by simp
    have f: "get m k = v"
      if kv: "map_of (fixedargs self) k = Some v \<and> k \<noteq> ''tx$'' \<and> k \<noteq> ''plugin$'' \<and> k \<noteq> ''meta$''"
      for k v
    proof -
      from kv have mo: "map_of (fixedargs self) k = Some v" and k: "k \<noteq> ''tx$''" "k \<noteq> ''plugin$''"
        "k \<noteq> ''meta$''"
        by simp_all
      have "get (snd (call_message so (exec_inst so self msg)
            ((frame_of so self None None msg cb actid tx)\<lparr>f_actmeta := Some am\<rparr>) am)) k = v"
        by (rule call_message_fixed [OF exec_inst_map_of(2) [OF d mo] exec_inst_map_of(1) [OF d mo]
              k(1) k(2)])
      with h(2) k(3) show ?thesis by (simp add: ac(2))
    qed
    from r f show ?thesis by blast
  qed
  have c4: "\<forall>f j. distinct (map fst f) \<longrightarrow>
            get (fixedargs (api_delegate so self f)) j =
              (if strict_fixedargs so
               then (case map_of (fixedargs self) j of Some w \<Rightarrow> w | None \<Rightarrow> get f j)
               else (case map_of f j of Some w \<Rightarrow> w | None \<Rightarrow> get (fixedargs self) j))"
    using d by (simp add: api_delegate_get)
  from c1 c23 c4 show ?thesis
    unfolding Let_def msg_def [symmetric] by (intro conjI; elim conjE)
qed

theorem fixedargs_win_in_act_witness:
  "distinct (map fst (fixedargs fixed_instance)) \<and>
   map_of (fixedargs fixed_instance) ''x'' = Some (JNum 2) \<and>
   get message_x1 ''x'' = JNum 1 \<and>
   map_option am_pattern (find_action state_two message_x1) = Some ''role:x'' \<and>
   map_option am_pattern
     (find_action state_two (extend_obj message_x1 (fixedargs fixed_instance))) =
     Some ''role:x,x:2'' \<and>
   (\<exists>am. find_action state_two (extend_obj message_x1 (fixedargs fixed_instance)) = Some am \<and>
         routed (after_act default_options fixed_instance message_x1 None state_two) =
           [(am_id am, JNum 2)])"
proof -
  let ?S = "after_act default_options fixed_instance message_x1 None state_two"
  have "case api_act default_options fixed_instance message_x1 None state_two of
          Inr s \<Rightarrow> True | Inl e \<Rightarrow> False"
    by code_simp
  then have r: "api_act default_options fixed_instance message_x1 None state_two = Inr ?S"
    by (simp add: after_act_def split: sum.splits)
  have hc: "handler_calls (trace ?S) =
              handler_calls (trace state_two) @
                [(''(id1)'', snd (last (handler_calls (trace ?S))))]"
    by code_simp
  have rt: "routed ?S = [(''(id1)'', JNum 2)]"
    by code_simp
  have p: "map_option am_pattern (find_action state_two message_x1) = Some ''role:x''"
    "map_option am_pattern
       (find_action state_two (extend_obj message_x1 (fixedargs fixed_instance))) =
       Some ''role:x,x:2''"
    by code_simp+
  have d: "distinct (map fst (fixedargs fixed_instance))"
    and mo: "map_of (fixedargs fixed_instance) ''x'' = Some (JNum 2)"
    and g: "get message_x1 ''x'' = JNum 1"
    by (simp_all add: fixed_instance_def message_x1_def get_def)
  from fixedargs_win_in_act [OF d r hc]
  have "\<exists>am. find_action state_two (extend_obj message_x1 (fixedargs fixed_instance)) = Some am \<and>
              am_id am = ''(id1)''"
    by (simp add: Let_def)
  then have "\<exists>am. find_action state_two (extend_obj message_x1 (fixedargs fixed_instance)) = Some am \<and>
         routed ?S = [(am_id am, JNum 2)]"
    by (auto simp: rt)
  with d mo g p show ?thesis by (intro conjI)
qed

theorem fixedargs_win_in_act_counterexample:
  "strict_fixedargs loose_options = False \<and>
   get message_x1 ''x'' = JNum 1 \<and>
   map_option am_id (find_action state_two message_x1) = Some ''(id0)'' \<and>
   (case api_act loose_options fixed_instance message_x1 None state_two of
      Inr st' \<Rightarrow> routed st' = [(''(id1)'', JNum 2)]
    | Inl e \<Rightarrow> False)"
  by code_simp

subsection \<open>C3: replay\<close>

text \<open>
  Claim C3, as amended. Let the cache be active and let a message carry an identifier of
  the full form \<^verbatim>\<open>id/tx\<close> (both parts non-empty, no other \<^verbatim>\<open>/\<close>) that the cache
  does not hold. If the dispatch of the message calls its continuation with the tuple \<open>r\<close>
  and the continuation returns, then a second dispatch with the same identifier hands the
  tuple \<open>r\<close> to its continuation, deferred, invokes no handler, counts one in
  \<^verbatim>\<open>act.cache\<close>, and does nothing else but log the replay. Whatever the outcome,
  success or error, \<open>act_done\<close> stores the tuple under the action id of the call. (With an
  identifier that is not of the full form, as \<^verbatim>\<open>X\<close>, the second dispatch invokes the
  handler again and the counter stays.)
\<close>

theorem replay_of_full_id:
  assumes first: "do_act so inst actmeta pc0 msg cb st = Inr st1"
    and id: "given_id msg = JStr (a @ ''/'' @ t)" "a \<noteq> []" "t \<noteq> []"
      "CHR ''/'' \<notin> set a" "CHR ''/'' \<notin> set t"
    and active: "actcache_active so"
    and miss: "map_of (actcache st) (a @ ''/'' @ t) = None"
    and delivered: "callbacks (trace st1) = callbacks (trace st) @ [(False, r)]"
    and returns: "case cb of None \<Rightarrow> True | Some f \<Rightarrow> f r = None"
    and second: "do_act so inst2 actmeta2 pc2 msg2 cb2 st1 = Inr st2"
    and same: "given_id msg2 = given_id msg"
  shows "callbacks (trace st2) = callbacks (trace st1) @ [(True, r)] \<and>
         handler_calls (trace st2) = handler_calls (trace st1) \<and>
         n_cache (stats st2) = Suc (n_cache (stats st1)) \<and>
         trace st2 = trace st1 @ [EvLog ''act'' ''CACHE'', EvCallback True r] \<and>
         (\<forall>fr result s. f_actid fr \<in> set (map fst (actcache (act_done so fr result s))))"
proof -
  define actid where "actid = a @ ''/'' @ t"
  let ?fr = "frame_of so inst actmeta pc0 msg cb actid (JStr t)"
  have ids: "act_ids inst msg st = Inr (actid, JStr t, st)"
    unfolding actid_def by (rule act_ids_full [OF id])
  have cl: "cache_lookup so msg st = None"
    using miss id(1) by (simp add: cache_lookup_def)
  from do_act_fresh [OF ids cl, of actmeta pc0 cb] first
  have st1: "st1 = execute_action so ?fr (exec_inst so inst msg) st"
    by simp
  have stored: "\<exists>e. map_of (actcache st1) actid = Some e \<and> ce_result e = r"
  proof -
    from execute_action_shape [of so ?fr "exec_inst so inst msg" st]
    show ?thesis
    proof (elim disjE exE conjE)
      fix fr' r0 S
      assume x: "execute_action so ?fr (exec_inst so inst msg) st = act_done so fr' r0 S"
        "f_actid fr' = f_actid ?fr" "f_actdone fr' = f_actdone ?fr"
        "callbacks (trace S) = callbacks (trace st)"
      from delivered have d: "callbacks (trace (act_done so fr' r0 S)) = callbacks (trace S) @ [(False, r)]"
        by (simp add: st1 x(1) x(4))
      from returns x(3) have ret: "case f_actdone fr' of None \<Rightarrow> True | Some f \<Rightarrow> f r = None"
        by simp
      from act_done_cached [OF d active ret] x(2) show ?thesis
        by (simp add: st1 x(1))
    next
      assume "callbacks (trace (execute_action so ?fr (exec_inst so inst msg) st)) =
                callbacks (trace st)"
      with delivered show ?thesis by (simp add: st1)
    qed
  qed
  then obtain e where e: "map_of (actcache st1) actid = Some e" "ce_result e = r"
    by blast
  have id2: "given_id msg2 = JStr (a @ ''/'' @ t)"
    using same id(1) by simp
  have ids2: "act_ids inst2 msg2 st1 = Inr (actid, JStr t, st1)"
    unfolding actid_def by (rule act_ids_full [OF id2 id(2-5)])
  have cl2: "cache_lookup so msg2 st1 = Some e"
    using e(1) id2 active by (simp add: cache_lookup_def actid_def)
  from do_act_replay [OF ids2 cl2, of actmeta2 pc2 cb2] second
  obtain k where "st2 = st1\<lparr>actcache := (k, e) # AList.delete k (actcache st1),
                stats := (stats st1)\<lparr>n_cache := Suc (n_cache (stats st1))\<rparr>,
                trace := trace st1 @ [EvLog ''act'' ''CACHE'', EvCallback True (ce_result e)]\<rparr>"
    by auto
  then have f: "callbacks (trace st2) = callbacks (trace st1) @ [(True, r)]"
    "handler_calls (trace st2) = handler_calls (trace st1)"
    "n_cache (stats st2) = Suc (n_cache (stats st1))"
    "trace st2 = trace st1 @ [EvLog ''act'' ''CACHE'', EvCallback True r]"
    by (simp_all add: e(2))
  have g: "\<forall>fr result s. f_actid fr \<in> set (map fst (actcache (act_done so fr result s)))"
    by (intro allI act_done_stored [OF active])
  show ?thesis
    by (intro conjI f g)
qed


theorem replay_of_full_id_witness:
  "given_id (message_id ''a/t'') = JStr (''a'' @ ''/'' @ ''t'') \<and>
   outline (Inr (state_once ''a/t'')) =
     Some ([''a/t''], 0, [''(id0)''], [(False, [JNull, JObj Plain [(''a'', JNum 1)]])]) \<and>
   outline (do_act default_options root_instance None None (message_id ''a/t'') None
              (state_once ''a/t'')) =
     Some ([''a/t''], 1, [''(id0)''],
           [(False, [JNull, JObj Plain [(''a'', JNum 1)]]),
            (True, [JNull, JObj Plain [(''a'', JNum 1)]])]) \<and>
   trace (after_do_act default_options root_instance None None (message_id ''a/t'') None
            (state_once ''a/t'')) =
     trace (state_once ''a/t'') @
       [EvLog ''act'' ''CACHE'', EvCallback True [JNull, JObj Plain [(''a'', JNum 1)]]]"
proof -
  let ?msg = "message_id ''a/t''"
  let ?S1 = "state_once ''a/t''"
  let ?S2 = "after_do_act default_options root_instance None None ?msg None ?S1"
  let ?r = "[JNull, JObj Plain [(''a'', JNum 1)]]"
  have o0: "outline (do_act default_options root_instance None None ?msg None state_echo) =
     Some ([''a/t''], 0, [''(id0)''], [(False, ?r)])"
    by code_simp
  have o2: "outline (do_act default_options root_instance None None ?msg None ?S1) =
     Some ([''a/t''], 1, [''(id0)''], [(False, ?r), (True, ?r)])"
    by code_simp
  have e: "map fst (actcache state_echo) = []" "callbacks (trace state_echo) = []"
    by code_simp+
  have s1: "?S1 = after_do_act default_options root_instance None None ?msg None state_echo"
    by (simp add: state_once_def after_act_def after_do_act_def api_act_def root_instance_def
          extend_obj_def)
  from o0 have first: "do_act default_options root_instance None None ?msg None state_echo = Inr ?S1"
    unfolding s1 by (simp add: outline_def after_do_act_def split: sum.splits)
  from o0 first have o1: "outline (Inr ?S1) = Some ([''a/t''], 0, [''(id0)''], [(False, ?r)])"
    by simp
  from o2 have second: "do_act default_options root_instance None None ?msg None ?S1 = Inr ?S2"
    by (simp add: outline_def after_do_act_def split: sum.splits)
  have id: "given_id ?msg = JStr (''a'' @ ''/'' @ ''t'')"
    by (simp add: given_id_def message_id_def get_def or_js_def)
  have a: "actcache_active default_options"
    by (simp add: default_options_def)
  from e(1) have miss: "map_of (actcache state_echo) (''a'' @ ''/'' @ ''t'') = None"
    by simp
  from o1 e(2) have delivered: "callbacks (trace ?S1) = callbacks (trace state_echo) @ [(False, ?r)]"
    by (simp add: outline_def)
  from replay_of_full_id [OF first id _ _ _ _ a miss delivered _ second refl]
  have "trace ?S2 = trace ?S1 @ [EvLog ''act'' ''CACHE'', EvCallback True ?r]"
    by simp
  with id o1 o2 show ?thesis by (intro conjI)
qed

theorem replay_short_id_counterexample:
  "actcache_active default_options \<and>
   get (message_id ''X'') ''id$'' = JStr ''X'' \<and>
   outline (api_act default_options root_instance (message_id ''X'') None (state_once ''X'')) =
     Some ([''X/id2'', ''X/id1''], 0, [''(id0)'', ''(id0)''],
           [(False, [JNull, JObj Plain [(''a'', JNum 1)]]),
            (False, [JNull, JObj Plain [(''a'', JNum 1)]])])"
  by code_simp

subsection \<open>C4: the key of the cache\<close>

text \<open>
  Claim C4. A dispatch looks the cache up under \<^verbatim>\<open>id$ || actid$\<close> as the caller gave it
  (\<open>key\<close>), and only when the cache is active and the key is a string that the cache holds
  (\<open>hit\<close>) is the stored tuple replayed: the continuation gets it deferred, no handler is
  invoked and the counter \<^verbatim>\<open>act.cache\<close> goes up. Otherwise the counter stays, and the
  handler of the action that the message resolves to is invoked (if the loop check and the
  validation pass and the instance is not closed). The only key a dispatch can add to the
  cache is its action id, which is composed as \<^verbatim>\<open>id/tx\<close>. So, when every key of the
  cache has a \<^verbatim>\<open>/\<close>, every key has one after the dispatch too, and an \<^verbatim>\<open>id$\<close>
  without \<^verbatim>\<open>/\<close> never hits.
\<close>

theorem cache_key_verbatim:
  assumes run: "do_act so inst actmeta pc0 msg cb st = Inr st'"
  shows
   "(let key = or_js (get msg ''id$'') (get msg ''actid$'');
         hit = (if actcache_active so
                then (case key of JStr k \<Rightarrow> map_of (actcache st) k | v \<Rightarrow> None) else None)
     in (case hit of
           Some e \<Rightarrow> callbacks (trace st') = callbacks (trace st) @ [(True, ce_result e)] \<and>
                    handler_calls (trace st') = handler_calls (trace st) \<and>
                    n_cache (stats st') = Suc (n_cache (stats st))
         | None \<Rightarrow> n_cache (stats st') = n_cache (stats st) \<and>
                  (\<forall>am. resolve st actmeta msg = Some am \<and> \<not> loops so msg am \<and>
                        validate_action_message so (with_default so msg) am = None \<and>
                        \<not> closed st \<longrightarrow>
                        (\<exists>c. handler_calls (trace st') =
                               handler_calls (trace st) @ [(am_id am, c)]))) \<and>
        (\<exists>a tx. (\<exists>s. act_ids inst msg st = Inr (a @ ''/'' @ to_string tx, tx, s)) \<and>
                set (map fst (actcache st')) \<subseteq>
                  insert (a @ ''/'' @ to_string tx) (set (map fst (actcache st)))) \<and>
        ((\<forall>k \<in> set (map fst (actcache st)). CHR ''/'' \<in> set k) \<longrightarrow>
           (\<forall>k \<in> set (map fst (actcache st')). CHR ''/'' \<in> set k) \<and>
           (\<forall>k. key = JStr k \<and> CHR ''/'' \<notin> set k \<longrightarrow> hit = None)))"
proof -
  from do_act_cases [OF run] obtain a tx n where
    ids: "act_ids inst msg st = Inr (a @ ''/'' @ to_string tx, tx, st\<lparr>nid_next := n\<rparr>)"
    and c: "case cache_lookup so msg st of
        Some e \<Rightarrow>
          (\<exists>k. given_id msg = JStr k \<and>
            st' = st\<lparr>nid_next := n, actcache := (k, e) # AList.delete k (actcache st),
                     stats := (stats st)\<lparr>n_cache := Suc (n_cache (stats st))\<rparr>,
                     trace := trace st @ [EvLog ''act'' ''CACHE'', EvCallback True (ce_result e)]\<rparr>)
      | None \<Rightarrow>
          st' = execute_action so
                  (frame_of so inst actmeta pc0 msg cb (a @ ''/'' @ to_string tx) tx)
                  (exec_inst so inst msg) (st\<lparr>nid_next := n\<rparr>)"
    by blast
  define actid where "actid = a @ ''/'' @ to_string tx"
  let ?fr = "frame_of so inst actmeta pc0 msg cb actid tx"
  let ?st = "st\<lparr>nid_next := n\<rparr>"
  have c1: "case cache_lookup so msg st of
           Some e \<Rightarrow> callbacks (trace st') = callbacks (trace st) @ [(True, ce_result e)] \<and>
                    handler_calls (trace st') = handler_calls (trace st) \<and>
                    n_cache (stats st') = Suc (n_cache (stats st))
         | None \<Rightarrow> n_cache (stats st') = n_cache (stats st) \<and>
                  (\<forall>am. resolve st actmeta msg = Some am \<and> \<not> loops so msg am \<and>
                        validate_action_message so (with_default so msg) am = None \<and>
                        \<not> closed st \<longrightarrow>
                        (\<exists>c. handler_calls (trace st') =
                               handler_calls (trace st) @ [(am_id am, c)]))"
  proof (cases "cache_lookup so msg st")
    case None
    with c have x: "st' = execute_action so ?fr (exec_inst so inst msg) ?st"
      by (simp add: actid_def)
    have "n_cache (stats st') = n_cache (stats st)"
      by (simp add: x execute_action_n_cache)
    moreover have "\<exists>c. handler_calls (trace st') = handler_calls (trace st) @ [(am_id am, c)]"
      if h: "resolve st actmeta msg = Some am \<and> \<not> loops so msg am \<and>
             validate_action_message so (with_default so msg) am = None \<and> \<not> closed st" for am
    proof -
      from h have r: "resolve ?st (f_actmeta ?fr) (f_args ?fr) = Some am"
        and l: "\<not> loops so (f_args ?fr) am"
        and v: "validate_action_message so (f_args ?fr) am = None"
        and o: "\<not> closed ?st"
        by simp_all
      from execute_action_invokes [OF r l v o, of "exec_inst so inst msg"]
      show ?thesis by (simp add: x)
    qed
    ultimately show ?thesis using None by simp
  next
    case (Some e)
    with c obtain k where
      "st' = st\<lparr>nid_next := n, actcache := (k, e) # AList.delete k (actcache st),
                     stats := (stats st)\<lparr>n_cache := Suc (n_cache (stats st))\<rparr>,
                     trace := trace st @ [EvLog ''act'' ''CACHE'', EvCallback True (ce_result e)]\<rparr>"
      by auto
    with Some show ?thesis by simp
  qed
  have keys: "set (map fst (actcache st')) \<subseteq> insert actid (set (map fst (actcache st)))"
  proof (cases "cache_lookup so msg st")
    case None
    with c have x: "st' = execute_action so ?fr (exec_inst so inst msg) ?st"
      by (simp add: actid_def)
    from execute_action_keys [of so ?fr "exec_inst so inst msg" ?st]
    show ?thesis by (simp add: x)
  next
    case (Some e)
    with c obtain k where k: "given_id msg = JStr k"
      "st' = st\<lparr>nid_next := n, actcache := (k, e) # AList.delete k (actcache st),
                     stats := (stats st)\<lparr>n_cache := Suc (n_cache (stats st))\<rparr>,
                     trace := trace st @ [EvLog ''act'' ''CACHE'', EvCallback True (ce_result e)]\<rparr>"
      by auto
    from Some k(1) have "map_of (actcache st) k = Some e"
      by (simp add: cache_lookup_def split: if_splits)
    then have "k \<in> set (map fst (actcache st))"
      by (metis map_of_eq_None_iff option.distinct(1) set_map)
    then show ?thesis
      by (auto simp: k(2) AList.delete_eq)
  qed
  have c2: "\<exists>a tx. (\<exists>s. act_ids inst msg st = Inr (a @ ''/'' @ to_string tx, tx, s)) \<and>
                set (map fst (actcache st')) \<subseteq>
                  insert (a @ ''/'' @ to_string tx) (set (map fst (actcache st)))"
    using ids keys unfolding actid_def by blast
  have slash: "CHR ''/'' \<in> set actid"
    by (simp add: actid_def)
  have c3: "(\<forall>k \<in> set (map fst (actcache st)). CHR ''/'' \<in> set k) \<longrightarrow>
           (\<forall>k \<in> set (map fst (actcache st')). CHR ''/'' \<in> set k) \<and>
           (\<forall>k. given_id msg = JStr k \<and> CHR ''/'' \<notin> set k \<longrightarrow> cache_lookup so msg st = None)"
  proof (intro impI conjI allI)
    assume inv: "\<forall>k \<in> set (map fst (actcache st)). CHR ''/'' \<in> set k"
    with keys slash show "\<forall>k \<in> set (map fst (actcache st')). CHR ''/'' \<in> set k"
      by blast
    fix k
    assume k: "given_id msg = JStr k \<and> CHR ''/'' \<notin> set k"
    with inv have "k \<notin> set (map fst (actcache st))" by blast
    then have "map_of (actcache st) k = None"
      by (simp add: map_of_eq_None_iff)
    with k show "cache_lookup so msg st = None"
      by (simp add: cache_lookup_def)
  qed
  note c1' = c1 [unfolded cache_lookup_def given_id_def]
  note c3' = c3 [unfolded cache_lookup_def given_id_def]
  show ?thesis
    unfolding Let_def by (rule conjI [OF c1' conjI [OF c2 c3']])
qed


theorem cache_key_verbatim_witness:
  "outline (Inr (state_once ''X'')) =
     Some ([''X/id1''], 0, [''(id0)''], [(False, [JNull, JObj Plain [(''a'', JNum 1)]])]) \<and>
   n_cache (stats (after_do_act default_options root_instance None None (message_id ''X'') None
                     (state_once ''X''))) = n_cache (stats (state_once ''X'')) \<and>
   outline (do_act default_options root_instance None None (message_id ''X'') None
              (state_once ''X'')) =
     Some ([''X/id2'', ''X/id1''], 0, [''(id0)'', ''(id0)''],
           [(False, [JNull, JObj Plain [(''a'', JNum 1)]]),
            (False, [JNull, JObj Plain [(''a'', JNum 1)]])]) \<and>
   outline (do_act default_options root_instance None None (message_id ''X/id1'') None
              (state_once ''X'')) =
     Some ([''X/id1''], 1, [''(id0)''],
           [(False, [JNull, JObj Plain [(''a'', JNum 1)]]),
            (True, [JNull, JObj Plain [(''a'', JNum 1)]])])"
proof -
  let ?S1 = "state_once ''X''"
  let ?S2 = "after_do_act default_options root_instance None None (message_id ''X'') None ?S1"
  have o1: "outline (Inr ?S1) =
     Some ([''X/id1''], 0, [''(id0)''], [(False, [JNull, JObj Plain [(''a'', JNum 1)]])])"
    by code_simp
  have o2: "outline (do_act default_options root_instance None None (message_id ''X'') None ?S1) =
     Some ([''X/id2'', ''X/id1''], 0, [''(id0)'', ''(id0)''],
           [(False, [JNull, JObj Plain [(''a'', JNum 1)]]),
            (False, [JNull, JObj Plain [(''a'', JNum 1)]])])"
    by code_simp
  have o3: "outline (do_act default_options root_instance None None (message_id ''X/id1'') None ?S1) =
     Some ([''X/id1''], 1, [''(id0)''],
           [(False, [JNull, JObj Plain [(''a'', JNum 1)]]),
            (True, [JNull, JObj Plain [(''a'', JNum 1)]])])"
    by code_simp
  from o2 have r: "do_act default_options root_instance None None (message_id ''X'') None ?S1 = Inr ?S2"
    by (simp add: outline_def after_do_act_def split: sum.splits)
  have k: "or_js (get (message_id ''X'') ''id$'') (get (message_id ''X'') ''actid$'') = JStr ''X''"
    by (simp add: message_id_def get_def or_js_def)
  from o1 have "map fst (actcache ?S1) = [''X/id1'']"
    by (simp add: outline_def)
  then have "''X'' \<notin> fst ` set (actcache ?S1)"
    by (simp flip: set_map)
  then have m: "map_of (actcache ?S1) ''X'' = None"
    by (simp add: map_of_eq_None_iff)
  have a: "actcache_active default_options"
    by (simp add: default_options_def)
  have h: "(if actcache_active default_options
            then (case JStr ''X'' of JStr k \<Rightarrow> map_of (actcache ?S1) k | v \<Rightarrow> None) else None) = None"
    by (simp add: a m)
  from cache_key_verbatim [OF r, unfolded Let_def k h]
  have n: "n_cache (stats ?S2) = n_cache (stats ?S1)"
    by (simp only: option.case)
  from o1 n o2 o3 show ?thesis by (intro conjI)
qed

subsection \<open>C5: no pattern matches\<close>

text \<open>
  Claim C5, as amended. Let the dispatcher get a message that no pattern matches and that
  replays no cached result. It first replaces a falsy \<^verbatim>\<open>default$\<close> by an empty object
  when \<^verbatim>\<open>strict.find\<close> is off; let \<open>d\<close> be the \<^verbatim>\<open>default$\<close> after that. If
  \<open>d\<close> is a plain object or an array, the continuation is called with \<open>(null, d)\<close> and the
  instance does not die. Otherwise the error is \<^verbatim>\<open>act_not_found\<close> when \<open>d\<close> is
  undefined and \<^verbatim>\<open>act_default_bad\<close> when it is not: with a truthy \<^verbatim>\<open>fatal$\<close> the
  instance dies with it and the continuation is not called; else the error goes through
  \<open>act_error\<close>, and the continuation is called with it unless an error handler consumes
  it. So with \<^verbatim>\<open>strict.find\<close> off every falsy \<^verbatim>\<open>default$\<close>, absent or present
  (\<^verbatim>\<open>null\<close>, \<^verbatim>\<open>0\<close>, \<^verbatim>\<open>false\<close>, the empty string), succeeds with \<open>{}\<close>.
\<close>

theorem default_when_no_match:
  assumes run: "do_act so inst None pc0 msg cb st = Inr st'"
    and nf: "find_action st msg = None"
    and miss: "cache_lookup so msg st = None"
  shows "(let d = get (with_default so msg) ''default$''; e = notfound_error d
          in d = (if truthy (get msg ''default$'') \<or> strict_find so then get msg ''default$''
                  else JObj Plain []) \<and>
             jsprop e ''code'' =
               JStr (if isUndefined d then ''act_not_found'' else ''act_default_bad'') \<and>
             (if isPlainObject d \<or> isArray d
              then callbacks (trace st') = callbacks (trace st) @ [(False, [JNull, d])] \<and>
                   dies (trace st') = dies (trace st)
              else if truthy (get msg ''fatal$'')
              then callbacks (trace st') = callbacks (trace st) \<and>
                   dies (trace st') = dies (trace st) @ [e]
              else callbacks (trace st') =
                     callbacks (trace st) @
                       (if consumed so (with_default so msg) e then [] else [(False, [e])]) \<and>
                   dies (trace st') = dies (trace st) \<and>
                   (\<exists>rest. act_errs (trace st') = act_errs (trace st) @ e # rest)))"
proof -
  let ?d = "get (with_default so msg) ''default$''"
  let ?e = "notfound_error ?d"
  from do_act_fresh_state [OF run miss] obtain actid tx n where
    st': "st' = execute_action so (frame_of so inst None pc0 msg cb actid tx)
                  (exec_inst so inst msg) (st\<lparr>nid_next := n\<rparr>)"
    by blast
  let ?fr = "frame_of so inst None pc0 msg cb actid tx"
  let ?st = "st\<lparr>nid_next := n\<rparr>"
  have r: "resolve ?st (f_actmeta ?fr) (f_args ?fr) = None"
  proof -
    have "resolve ?st (f_actmeta ?fr) (f_args ?fr) = resolve ?st None msg"
      by (simp add: frame_of_def)
    also have "\<dots> = find_action st msg"
      by (simp add: resolve_def find_action_def)
    finally show ?thesis using nf by simp
  qed
  note ex = execute_action_notfound [OF r, of so "exec_inst so inst msg"]
  have code: "jsprop ?e ''code'' =
               JStr (if isUndefined ?d then ''act_not_found'' else ''act_default_bad'')"
    by (simp add: notfound_error_def)
  have e: "truthy (result_error so (?fr\<lparr>f_actmeta := None\<rparr>) [?e])"
    "result_error so (?fr\<lparr>f_actmeta := None\<rparr>) [?e] = ?e"
    "format_error ?e None = ?e"
    by (simp_all add: notfound_error_def)
  have main: "if isPlainObject ?d \<or> isArray ?d
              then callbacks (trace st') = callbacks (trace st) @ [(False, [JNull, ?d])] \<and>
                   dies (trace st') = dies (trace st)
              else if truthy (get msg ''fatal$'')
              then callbacks (trace st') = callbacks (trace st) \<and>
                   dies (trace st') = dies (trace st) @ [?e]
              else callbacks (trace st') =
                     callbacks (trace st) @
                       (if consumed so (with_default so msg) ?e then [] else [(False, [?e])]) \<and>
                   dies (trace st') = dies (trace st) \<and>
                   (\<exists>rest. act_errs (trace st') = act_errs (trace st) @ ?e # rest)"
  proof (cases "isPlainObject ?d \<or> isArray ?d")
    case True
    then have ok: "\<not> truthy (result_error so (?fr\<lparr>f_actmeta := None\<rparr>) [JNull, ?d])"
      by (auto simp: result_error_def arg_at_def)
    from True show ?thesis
      by (simp add: st' ex act_done_success_proj [OF ok])
  next
    case False
    show ?thesis
    proof (cases "truthy (get msg ''fatal$'')")
      case True
      with False show ?thesis
        by (simp add: st' ex with_default_get)
    next
      case nofatal: False
      from act_done_error_proj(4) [OF e(1)]
      obtain rest where "act_errs (trace (act_done so (?fr\<lparr>f_actmeta := None\<rparr>) [?e]
            (if trace_unknown so then emit_log ''act'' ''UNKNOWN'' ?st else ?st))) =
          act_errs (trace (if trace_unknown so then emit_log ''act'' ''UNKNOWN'' ?st else ?st)) @
            ?e # rest"
        by (auto simp: e)
      then have "\<exists>rest. act_errs (trace st') = act_errs (trace st) @ ?e # rest"
        using False nofatal by (simp add: st' ex with_default_get)
      with False nofatal show ?thesis
        by (simp add: st' ex with_default_get act_done_error_proj [OF e(1)] e)
    qed
  qed
  have dd: "?d = (if truthy (get msg ''default$'') \<or> strict_find so then get msg ''default$''
                  else JObj Plain [])"
    by (rule with_default_default)
  from conjI [OF dd conjI [OF code main]] show ?thesis
    unfolding Let_def .
qed


theorem default_when_no_match_witness:
  "find_action new_state (message_nope (JNum 5)) = None \<and>
   callbacks (trace (after_do_act default_options root_instance None None (message_nope (JNum 5))
                       None new_state)) =
     [(False, [notfound_error (JNum 5)])] \<and>
   jsprop (notfound_error (JNum 5)) ''code'' = JStr ''act_default_bad''"
proof -
  let ?msg = "message_nope (JNum 5)"
  let ?S = "after_do_act default_options root_instance None None ?msg None new_state"
  have "case do_act default_options root_instance None None ?msg None new_state of
          Inr s \<Rightarrow> True | Inl e \<Rightarrow> False"
    by code_simp
  then have r: "do_act default_options root_instance None None ?msg None new_state = Inr ?S"
    by (simp add: after_do_act_def split: sum.splits)
  have "case find_action new_state ?msg of None \<Rightarrow> True | Some am \<Rightarrow> False"
    by code_simp
  then have nf: "find_action new_state ?msg = None"
    by (simp split: option.splits)
  have miss: "cache_lookup default_options ?msg new_state = None"
    by (simp add: cache_lookup_def given_id_def message_nope_def get_def or_js_def)
  have g: "get ?msg ''default$'' = JNum 5" "get ?msg ''fatal$'' = JUndefined"
    by (simp_all add: message_nope_def get_def)
  have o: "strict_find default_options" "errhandler default_options = None"
    by (simp_all add: default_options_def)
  have t: "callbacks (trace new_state) = []"
    by (simp add: new_state_def)
  from default_when_no_match [OF r nf miss]
  have "callbacks (trace ?S) = [(False, [notfound_error (JNum 5)])] \<and>
        jsprop (notfound_error (JNum 5)) ''code'' = JStr ''act_default_bad''"
    by (simp add: Let_def with_default_default g o t consumed_def)
  with nf show ?thesis by simp
qed

theorem default_falsy_counterexample:
  "\<not> strict_find lenient_options \<and>
   get (message_nope (JNum 0)) ''default$'' = JNum 0 \<and>
   (case find_action new_state (message_nope (JNum 0)) of None \<Rightarrow> True | Some am \<Rightarrow> False) \<and>
   (case api_act lenient_options root_instance (message_nope (JNum 0)) None new_state of
      Inr st' \<Rightarrow> callbacks (trace st') = [(False, [JNull, JObj Plain []])] \<and> act_errs (trace st') = []
    | Inl e \<Rightarrow> False)"
  by code_simp

subsection \<open>C6: the loop guard\<close>

text \<open>
  Claim C6, as amended. Let the dispatcher get a message whose \<^verbatim>\<open>history$\<close> is an
  array, that resolves to the metadata \<open>am\<close> and replays no cached result, and let
  \<open>count\<close> be the number of entries of the history whose \<^verbatim>\<open>action\<close> is the id of
  \<open>am\<close>. When the history is not empty and \<open>count\<close> exceeds \<^verbatim>\<open>strict.maxloop\<close>, the
  call fails with the error \<^verbatim>\<open>act_loop\<close> and the handler is not invoked; otherwise the
  handler is invoked (if the message is valid and the instance is not closed). The loop
  check of \<open>executable_action\<close> stops the call exactly in the first case. When
  \<^verbatim>\<open>strict.maxloop\<close> is not negative (its default is 11), the first case is that
  \<open>count\<close> exceeds it; with a negative \<^verbatim>\<open>strict.maxloop\<close> an empty history passes the
  check although its count, 0, exceeds it.
\<close>

theorem loop_guard:
  assumes run: "do_act so inst actmeta pc0 msg cb st = Inr st'"
    and h: "get msg ''history$'' = JArr history"
    and am: "resolve st actmeta msg = Some am"
    and miss: "cache_lookup so msg st = None"
  shows "(let count = length (filter (\<lambda>e. jsprop e ''action'' = JStr (am_id am)) history);
              stopped = (history \<noteq> [] \<and> strict_maxloop so < int count)
          in (if stopped
              then handler_calls (trace st') = handler_calls (trace st) \<and>
                   (\<exists>rest. act_errs (trace st') = act_errs (trace st) @ loop_error msg am # rest) \<and>
                   jsprop (loop_error msg am) ''code'' = JStr ''act_loop''
              else (validate_action_message so (with_default so msg) am = None \<and> \<not> closed st \<longrightarrow>
                      (\<exists>m. handler_calls (trace st') = handler_calls (trace st) @ [(am_id am, m)]))) \<and>
             (\<forall>fr i s. f_actmeta fr = Some am \<and> get (f_args fr) ''history$'' = JArr history \<longrightarrow>
                fst (executable_action so fr i s) = (\<not> stopped)) \<and>
             (0 \<le> strict_maxloop so \<longrightarrow> stopped = (strict_maxloop so < int count)) \<and>
             (strict_maxloop so < 0 \<and> history = [] \<longrightarrow> \<not> stopped \<and> strict_maxloop so < int count))"
proof -
  define count where "count = length (filter (\<lambda>e. jsprop e ''action'' = JStr (am_id am)) history)"
  define stopped where "stopped \<longleftrightarrow> history \<noteq> [] \<and> strict_maxloop so < int count"
  have rc: "repeat_count history (am_id am) = count"
    by (simp add: repeat_count_def count_def)
  from do_act_fresh_state [OF run miss] obtain actid tx n where
    st': "st' = execute_action so (frame_of so inst actmeta pc0 msg cb actid tx)
                  (exec_inst so inst msg) (st\<lparr>nid_next := n\<rparr>)"
    by blast
  let ?fr = "frame_of so inst actmeta pc0 msg cb actid tx"
  let ?st = "st\<lparr>nid_next := n\<rparr>"
  have r: "resolve ?st (f_actmeta ?fr) (f_args ?fr) = Some am"
  proof -
    have "resolve ?st (f_actmeta ?fr) (f_args ?fr) = resolve ?st actmeta msg"
      by simp
    also have "\<dots> = resolve st actmeta msg"
      by (simp add: resolve_def find_action_def split: option.splits)
    finally show ?thesis using am by simp
  qed
  have l: "loops so (f_args ?fr) am = stopped"
    by (simp add: loops_iff [OF h] rc stopped_def)
  have c1: "if stopped
            then handler_calls (trace st') = handler_calls (trace st) \<and>
                 (\<exists>rest. act_errs (trace st') = act_errs (trace st) @ loop_error msg am # rest) \<and>
                 jsprop (loop_error msg am) ''code'' = JStr ''act_loop''
            else (validate_action_message so (with_default so msg) am = None \<and> \<not> closed st \<longrightarrow>
                    (\<exists>m. handler_calls (trace st') = handler_calls (trace st) @ [(am_id am, m)]))"
  proof (cases stopped)
    case True
    with l have lp: "loops so (f_args ?fr) am" by simp
    have e: "truthy (result_error so (?fr\<lparr>f_actmeta := Some am\<rparr>) [loop_error msg am])"
      "format_error (result_error so (?fr\<lparr>f_actmeta := Some am\<rparr>) [loop_error msg am]) (Some am) =
         loop_error msg am"
      by (simp_all add: loop_error_def)
    have x: "st' = act_done so (?fr\<lparr>f_actmeta := Some am\<rparr>) [loop_error msg am] ?st"
      by (simp add: st' execute_action_loop [OF r lp])
    from act_done_error_proj(4) [OF e(1), of ?st]
    have "\<exists>rest. act_errs (trace st') = act_errs (trace st) @ loop_error msg am # rest"
      by (simp add: x e(2))
    moreover have "handler_calls (trace st') = handler_calls (trace st)"
      by (simp add: x)
    moreover have "jsprop (loop_error msg am) ''code'' = JStr ''act_loop''"
      by (simp add: loop_error_def)
    ultimately show ?thesis using True by simp
  next
    case False
    with l have nl: "\<not> loops so (f_args ?fr) am" by simp
    show ?thesis
    proof (cases "validate_action_message so (with_default so msg) am = None \<and> \<not> closed st")
      case True
      then have v: "validate_action_message so (f_args ?fr) am = None" and o: "\<not> closed ?st"
        by simp_all
      from execute_action_invokes [OF r nl v o, of "exec_inst so inst msg"]
      have "\<exists>m. handler_calls (trace st') = handler_calls (trace st) @ [(am_id am, m)]"
        by (simp add: st')
      with False show ?thesis by simp
    next
      case no: False
      from no False show ?thesis by auto
    qed
  qed
  have c2: "\<forall>fr i s. f_actmeta fr = Some am \<and> get (f_args fr) ''history$'' = JArr history \<longrightarrow>
              fst (executable_action so fr i s) = (\<not> stopped)"
    by (simp add: executable_action_found loops_iff rc stopped_def)
  have c3: "0 \<le> strict_maxloop so \<longrightarrow> stopped = (strict_maxloop so < int count)"
    by (auto simp: stopped_def count_def)
  have c4: "strict_maxloop so < 0 \<and> history = [] \<longrightarrow> \<not> stopped \<and> strict_maxloop so < int count"
    by (auto simp: stopped_def count_def)
  from c1 c2 c3 c4 show ?thesis
    unfolding Let_def count_def [symmetric] stopped_def [symmetric] by (intro conjI)
qed

theorem loop_guard_witness:
  "strict_maxloop default_options = 11 \<and>
   length (history_of 11 5) = 16 \<and>
   length (filter (\<lambda>e. jsprop e ''action'' = JStr (am_id meta_echo)) (history_of 11 5)) = 11 \<and>
   (\<exists>m. handler_calls (trace (after_do_act default_options root_instance None None
                                (message_loop 11 5) None state_echo)) = [(am_id meta_echo, m)]) \<and>
   length (filter (\<lambda>e. jsprop e ''action'' = JStr (am_id meta_echo)) (history_of 12 3)) = 12 \<and>
   handler_calls (trace (after_do_act default_options root_instance None None
                           (message_loop 12 3) None state_echo)) = [] \<and>
   map (\<lambda>e. jsprop e ''code'')
     (act_errs (trace (after_do_act default_options root_instance None None
                         (message_loop 12 3) None state_echo))) = [JStr ''act_loop'']"
proof -
  let ?msg = "message_loop 11 5"
  let ?S = "after_do_act default_options root_instance None None ?msg None state_echo"
  have "case do_act default_options root_instance None None ?msg None state_echo of
          Inr s \<Rightarrow> True | Inl e \<Rightarrow> False"
    by code_simp
  then have r: "do_act default_options root_instance None None ?msg None state_echo = Inr ?S"
    by (simp add: after_do_act_def split: sum.splits)
  have h: "get ?msg ''history$'' = JArr (history_of 11 5)"
    by (simp add: message_loop_def get_def)
  have "case find_action state_echo ?msg of None \<Rightarrow> False | Some am \<Rightarrow> True"
    by code_simp
  moreover have "find_action state_echo ?msg = find_action state_echo pattern_x"
    by (simp add: find_action_def message_loop_def pattern_x_def clean_def reserved_def)
  ultimately have am: "resolve state_echo None ?msg = Some meta_echo"
    by (simp add: resolve_def meta_echo_def split: option.splits)
  have miss: "cache_lookup default_options ?msg state_echo = None"
    by (simp add: cache_lookup_def given_id_def message_loop_def get_def or_js_def)
  have i: "am_id meta_echo = ''(id0)''"
    by code_simp
  have c: "length (history_of 11 5) = 16"
    "length (filter (\<lambda>e. jsprop e ''action'' = JStr (am_id meta_echo)) (history_of 11 5)) = 11"
    "length (filter (\<lambda>e. jsprop e ''action'' = JStr (am_id meta_echo)) (history_of 12 3)) = 12"
    by (simp_all add: history_of_def i get_def)
  have m: "strict_maxloop default_options = 11"
    by (simp add: default_options_def)
  have "case am_validate meta_echo of None \<Rightarrow> True | Some v \<Rightarrow> False"
    by code_simp
  then have v: "validate_action_message default_options (with_default default_options ?msg) meta_echo
                  = None"
    by (simp add: validate_action_message_def split: option.splits)
  have t: "handler_calls (trace state_echo) = []" "\<not> closed state_echo"
    by code_simp+
  have k: "handler_calls (trace (after_do_act default_options root_instance None None
                                   (message_loop 12 3) None state_echo)) = []"
    "map (\<lambda>e. jsprop e ''code'')
       (act_errs (trace (after_do_act default_options root_instance None None
                           (message_loop 12 3) None state_echo))) = [JStr ''act_loop'']"
    by code_simp+
  from loop_guard [OF r h am miss]
  have "\<exists>m. handler_calls (trace ?S) = [(am_id meta_echo, m)]"
    by (simp add: Let_def c m t v)
  with c m k show ?thesis by (intro conjI)
qed

theorem loop_guard_counterexample:
  "strict_maxloop negative_options = - 1 \<and>
   get (message_loop 0 0) ''history$'' = JArr [] \<and>
   strict_maxloop negative_options <
     int (length (filter (\<lambda>e. jsprop e ''action'' = JStr (am_id meta_echo)) [])) \<and>
   map fst (handler_calls (trace (after_act negative_options root_instance (message_loop 0 0)
                                    None state_echo))) = [am_id meta_echo] \<and>
   act_errs (trace (after_act negative_options root_instance (message_loop 0 0) None state_echo))
     = []"
  by code_simp

subsection \<open>C7: the override policy of \<^verbatim>\<open>add\<close>\<close>

text \<open>
  Claim C7, as amended. The two switches in effect for an \<^verbatim>\<open>add\<close> are the properties
  \<^verbatim>\<open>internal$.catchall\<close> and \<^verbatim>\<open>strict$.add\<close> of the pattern when it carries them
  (and they are not null), else the options \<^verbatim>\<open>internal.catchall\<close> and
  \<^verbatim>\<open>strict.add\<close>. Let \<open>p\<close> be the prior that \<^verbatim>\<open>find\<close> gives for the new
  pattern. When the catch-all switch is off and \<open>p\<close> is the catch-all (its canonical
  pattern is empty), or else when the strict switch is on and the canonical pattern of
  \<open>p\<close> differs from the new one, no prior is taken. With no prior taken, the new metadata
  has no \<^verbatim>\<open>priormeta\<close> and an empty \<^verbatim>\<open>priorpath\<close>, and the route is added. With
  the prior \<open>p\<close> taken, \<^verbatim>\<open>priorpath\<close> is \<^verbatim>\<open>p.id + ';' + p.priorpath\<close>; when
  \<open>p\<close> has a \<^verbatim>\<open>handle\<close> function, it is called with the pattern, no
  \<^verbatim>\<open>priormeta\<close> is recorded and no route is added; otherwise \<^verbatim>\<open>priormeta\<close> is
  \<open>p\<close> and the route is added. (The route holds the metadata after the modifiers ran.)
\<close>

theorem add_override_policy:
  assumes run: "api_add so self raw_pattern (Some act) meta st = Inr st'"
  shows "(let pattern = filter (\<lambda>(k, v). \<not> isObject v) (clean raw_pattern);
              canon = common_pattern pattern;
              catchall_on =
                (if truthy (get raw_pattern ''internal$'') \<and>
                    jsprop (get raw_pattern ''internal$'') ''catchall'' \<noteq> JNull
                 then truthy (jsprop (get raw_pattern ''internal$'') ''catchall'')
                 else internal_catchall so);
              strict_on =
                (if truthy (get raw_pattern ''strict$'') \<and>
                    jsprop (get raw_pattern ''strict$'') ''add'' \<noteq> JNull
                 then truthy (jsprop (get raw_pattern ''strict$'') ''add'')
                 else strict_add so);
              taken = (case find_action st pattern of
                         None \<Rightarrow> None
                       | Some p \<Rightarrow>
                           if \<not> catchall_on \<and> am_pattern p = [] then None
                           else if strict_on \<and> am_pattern p \<noteq> canon then None
                           else Some p);
              am = fst (new_actmeta so raw_pattern act meta (''('' @ nid st (nid_next st) @ '')'')
                          (st\<lparr>nid_next := Suc (nid_next st)\<rparr>));
              added = router_add pattern (modify_action (action_modifiers st) am) (actrouter st)
          in am_pattern am = canon \<and>
             (case taken of
                None \<Rightarrow>
                  am_priormeta am = None \<and> am_priorpath am = [] \<and>
                  handle_calls (trace st') = handle_calls (trace st) \<and> actrouter st' = added
              | Some p \<Rightarrow>
                  am_priorpath am = am_id p @ '';'' @ am_priorpath p \<and>
                  (if am_handle p
                   then am_priormeta am = None \<and>
                        handle_calls (trace st') = handle_calls (trace st) @ [(am_id p, raw_pattern)] \<and>
                        actrouter st' = actrouter st
                   else am_priormeta am = Some p \<and>
                        handle_calls (trace st') = handle_calls (trace st) \<and>
                        actrouter st' = added)))"
proof -
  obtain am prior pattern where
    n: "new_actmeta so raw_pattern act meta (''('' @ nid st (nid_next st) @ '')'')
          (st\<lparr>nid_next := Suc (nid_next st)\<rparr>) = (am, prior, pattern)"
    by (cases "new_actmeta so raw_pattern act meta (''('' @ nid st (nid_next st) @ '')'')
                 (st\<lparr>nid_next := Suc (nid_next st)\<rparr>)")
  note m = new_actmeta_eq [OF n]
  note a = api_add_eq [OF run n]
  have p: "prior = (case find_action st pattern of
                         None \<Rightarrow> None
                       | Some p \<Rightarrow>
                           if \<not> add_internal_catchall so raw_pattern \<and> am_pattern p = [] then None
                           else if add_strict_add so raw_pattern \<and>
                                   am_pattern p \<noteq> common_pattern pattern then None
                           else Some p)"
    by (simp add: m(3) select_prior_def eq_commute [of "[]"] split: option.splits)
  have "am_pattern am = common_pattern pattern \<and>
        (case prior of
           None \<Rightarrow>
             am_priormeta am = None \<and> am_priorpath am = [] \<and>
             handle_calls (trace st') = handle_calls (trace st) \<and>
             actrouter st' = router_add pattern (modify_action (action_modifiers st) am) (actrouter st)
         | Some p \<Rightarrow>
             am_priorpath am = am_id p @ '';'' @ am_priorpath p \<and>
             (if am_handle p
              then am_priormeta am = None \<and>
                   handle_calls (trace st') = handle_calls (trace st) @ [(am_id p, raw_pattern)] \<and>
                   actrouter st' = actrouter st
              else am_priormeta am = Some p \<and>
                   handle_calls (trace st') = handle_calls (trace st) \<and>
                   actrouter st' =
                     router_add pattern (modify_action (action_modifiers st) am) (actrouter st)))"
    using a by (cases prior) (simp_all add: m(2) m(4) m(5))
  then show ?thesis
    unfolding Let_def n fst_conv
      add_internal_catchall_def [symmetric] add_strict_add_def [symmetric]
      m(1) [symmetric] p [symmetric] .
qed

theorem add_override_policy_witness:
  "lineage state_echo pattern_x = Some (''role:x'', None, []) \<and>
   lineage (after_add default_options root_instance pattern_x (Some echo_action) no_meta state_echo)
     pattern_x = Some (''role:x'', Some ''role:x'', ''(id0);'') \<and>
   (let am = fst (new_actmeta default_options pattern_x echo_action no_meta
                    (''('' @ nid state_echo (nid_next state_echo) @ '')'')
                    (state_echo\<lparr>nid_next := Suc (nid_next state_echo)\<rparr>))
    in am_priormeta am = Some meta_echo \<and>
       am_priorpath am = am_id meta_echo @ '';'' @ am_priorpath meta_echo \<and>
       actrouter (after_add default_options root_instance pattern_x (Some echo_action) no_meta
                    state_echo) =
         router_add pattern_x (modify_action (action_modifiers state_echo) am)
           (actrouter state_echo)) \<and>
   handle_calls (trace (after_add default_options root_instance pattern_x (Some echo_action)
                          no_meta state_handled)) = [(''(id0)'', pattern_x)] \<and>
   map fst (actrouter (after_add default_options root_instance pattern_x (Some echo_action)
                         no_meta state_handled)) = map fst (actrouter state_handled)"
proof -
  let ?S = "after_add default_options root_instance pattern_x (Some echo_action) no_meta state_echo"
  have "case api_add default_options root_instance pattern_x (Some echo_action) no_meta state_echo of
          Inr s \<Rightarrow> True | Inl e \<Rightarrow> False"
    by code_simp
  then have r: "api_add default_options root_instance pattern_x (Some echo_action) no_meta state_echo
                  = Inr ?S"
    by (simp add: after_add_def split: sum.splits)
  have l: "lineage state_echo pattern_x = Some (''role:x'', None, [])"
    "lineage ?S pattern_x = Some (''role:x'', Some ''role:x'', ''(id0);'')"
    by code_simp+
  have hd: "handle_calls (trace (after_add default_options root_instance pattern_x (Some echo_action)
                          no_meta state_handled)) = [(''(id0)'', pattern_x)]"
    "map fst (actrouter (after_add default_options root_instance pattern_x (Some echo_action)
                         no_meta state_handled)) = map fst (actrouter state_handled)"
    by code_simp+
  have pat: "filter (\<lambda>(k, v). \<not> isObject v) (clean pattern_x) = pattern_x"
    by (simp add: pattern_x_def clean_def reserved_def)
  from l(1) have f: "find_action state_echo pattern_x = Some meta_echo"
    by (auto simp: lineage_def meta_echo_def)
  have mp: "am_pattern meta_echo = ''role:x''" "\<not> am_handle meta_echo"
    by code_simp+
  have g: "get pattern_x ''internal$'' = JUndefined" "get pattern_x ''strict$'' = JUndefined"
    by (simp_all add: pattern_x_def get_def)
  have o: "\<not> strict_add default_options"
    by (simp add: default_options_def)
  from add_override_policy [OF r]
  have "let am = fst (new_actmeta default_options pattern_x echo_action no_meta
                    (''('' @ nid state_echo (nid_next state_echo) @ '')'')
                    (state_echo\<lparr>nid_next := Suc (nid_next state_echo)\<rparr>))
    in am_priormeta am = Some meta_echo \<and>
       am_priorpath am = am_id meta_echo @ '';'' @ am_priorpath meta_echo \<and>
       actrouter ?S =
         router_add pattern_x (modify_action (action_modifiers state_echo) am)
           (actrouter state_echo)"
    by (simp add: Let_def pat f mp g o)
  with l hd show ?thesis by (intro conjI)
qed

theorem add_override_counterexample:
  "strict_add strict_options \<and>
   lineage state_echo [(''role'', JStr ''x''), (''x'', JNum 1)] = Some (''role:x'', None, []) \<and>
   lineage (after_add strict_options root_instance pattern_loose (Some echo_action) no_meta
              state_echo)
     [(''role'', JStr ''x''), (''x'', JNum 1)] = Some (''role:x,x:1'', Some ''role:x'', ''(id0);'')"
  by code_simp

subsection \<open>C8: prior calls\<close>




subsection \<open>C9: subscribers\<close>

text \<open>
  Claim C9, as amended. The listeners that \<^verbatim>\<open>sub\<close> installs on \<^verbatim>\<open>act-in\<close> and
  \<^verbatim>\<open>act-out\<close> call, for an emitted message whose \<^verbatim>\<open>meta$.entry\<close> is
  \<^verbatim>\<open>true\<close>, the members of the one list that the subscription router finds for the
  message (\<open>calls\<close> below), each once and in order, and no subscriber when
  \<^verbatim>\<open>meta$.entry\<close> is not \<^verbatim>\<open>true\<close> or no listener is installed. No exception
  leaves a listener: every subscriber that throws leaves one error log entry and the others
  are still called, and the events added hold no call of a handler, a continuation or the
  error handler, no \<open>die\<close> and no \<^verbatim>\<open>act-err\<close>.

  A dispatch that invokes a handler runs the \<^verbatim>\<open>act-in\<close> listeners once on the call
  message, whose \<^verbatim>\<open>meta$.entry\<close> is \<^verbatim>\<open>true\<close> exactly when the dispatch is not a
  prior call, and after that at most the \<^verbatim>\<open>act-out\<close> listeners, once, on the handler's
  message; \<open>act_done\<close> runs the \<^verbatim>\<open>act-out\<close> listeners exactly when the result
  is no error. A call of \<^verbatim>\<open>prior\<close> calls no subscriber. \<^verbatim>\<open>sub\<close> installs the
  listeners and puts the subscriber at the end of the list that the router then finds for
  the subscriber's pattern, which is the list of a broader pattern when one was there. A
  dispatch whose identifier is well formed returns, whatever the subscribers do. (The
  delegate fixes no \<^verbatim>\<open>meta$\<close> and the messages have no key twice.)

  The claim as written is too strong: a subscriber is called only if it is on the list found
  for the message. In the counterexample the dispatch of \<^verbatim>\<open>{role: 'x', x: 1}\<close> is an
  entry call, and the subscriber of \<^verbatim>\<open>{role: 'x'}\<close> is called when it is alone but not
  when another subscribed to \<^verbatim>\<open>{role: 'x', x: 1}\<close> before; and a subscriber of
  \<^verbatim>\<open>{role: 'x', x: 1}\<close> that was filed under the list of \<^verbatim>\<open>{role: 'x'}\<close> is
  called for \<^verbatim>\<open>{role: 'x', x: 2}\<close>.
\<close>

theorem subscribers_fire:
  assumes nm: "map_of (fixedargs inst) ''meta$'' = None"
    and dm: "distinct (map fst msg)"
  shows
  "(let calls = (\<lambda>pr m r.
           (let args = put m pr (JBool True);
                meta = or_js (get args ''meta$'') (JObj Plain []);
                args1 = put args ''meta$'' meta
            in if handle_sub_installed st \<and> jsprop meta ''entry'' = JBool True
               then (case router_find (subrouter st) args1 of
                       None \<Rightarrow> []
                     | Some sl \<Rightarrow>
                         map (\<lambda>sf. (sf, put args1 ''meta$''
                                          (set_prop meta ''sub'' (JStr (subs_pattern sl))), r))
                             (subs_funcs sl))
               else []));
        named = map (\<lambda>(sf, a, r). (fst sf, a, r))
    in
     (\<forall>pr m r. \<exists>c evs.
         emit_subs pr m r st = (None, c, st\<lparr>trace := trace st @ evs\<rparr>) \<and> quiet evs \<and>
         sub_calls evs = named (calls pr m r) \<and>
         length (sub_error_logs evs) =
           length (filter (\<lambda>(sf, a, r). snd sf a r \<noteq> None) (calls pr m r))) \<and>
     (\<forall>st' a c.
         do_act so inst actmeta pc0 msg cb st = Inr st' \<and>
         handler_calls (trace st') = handler_calls (trace st) @ [(a, c)] \<longrightarrow>
         (\<exists>m rest.
            (\<forall>k. k \<noteq> ''meta$'' \<longrightarrow> get c k = get m k) \<and>
            (\<forall>k. k \<noteq> ''sub'' \<longrightarrow> jsprop (get c ''meta$'') k = jsprop (get m ''meta$'') k) \<and>
            jsprop (get m ''meta$'') ''entry'' =
              JBool (case pc0 of None \<Rightarrow> True | Some pc \<Rightarrow> entry pc) \<and>
            sub_calls (trace st') =
              sub_calls (trace st) @ named (calls ''in$'' m JUndefined) @ rest \<and>
            (rest = [] \<or> (\<exists>r. rest = named (calls ''out$'' c r))))) \<and>
     (\<forall>fr result.
         sub_calls (trace (act_done so fr result st)) =
           sub_calls (trace st) @
           (if truthy (result_error so fr result) then []
            else named (calls ''out$'' (f_callargs fr) (arg_at result 1)))) \<and>
     (\<forall>tx callargs am pc prior_args prior_cb st'.
         delegate_prior so inst tx callargs am pc prior_args prior_cb st = Inr st' \<and>
         distinct (map fst prior_args) \<longrightarrow>
         sub_calls (trace st') = sub_calls (trace st)) \<and>
     (\<forall>p sf.
         handle_sub_installed (api_sub p sf st) \<and>
         (let P = (if is_nullish (get p ''in$'') \<and> is_nullish (get p ''out$'') \<and>
                      is_nullish (get p ''error$'') \<and> is_nullish (get p ''cache$'') \<and>
                      is_nullish (get p ''default$'') \<and> is_nullish (get p ''client$'')
                   then put p ''in$'' (JBool True) else p)
          in pattern_matches P P \<longrightarrow>
             (\<exists>sl. router_find (subrouter (api_sub p sf st)) P = Some sl \<and>
                   subs_funcs sl =
                     (case router_find (subrouter st) P of
                        None \<Rightarrow> [] | Some f \<Rightarrow> subs_funcs f) @ [sf]))) \<and>
     (id_ok msg \<longrightarrow> (\<exists>st'. do_act so inst actmeta pc0 msg cb st = Inr st')))"
proof -
  have A: "\<forall>pr m r. \<exists>c evs.
         emit_subs pr m r st = (None, c, st\<lparr>trace := trace st @ evs\<rparr>) \<and> quiet evs \<and>
         sub_calls evs = map (\<lambda>(sf, a, r). (fst sf, a, r)) (fired st pr m r) \<and>
         length (sub_error_logs evs) =
           length (filter (\<lambda>(sf, a, r). snd sf a r \<noteq> None) (fired st pr m r))"
  proof (intro allI)
    fix pr m r
    let ?evs = "concat (map (\<lambda>(sf, a, r). sub_events a r sf) (fired st pr m r))"
    have "emit_subs pr m r st =
            (None, fst (snd (emit_subs pr m r st)), st\<lparr>trace := trace st @ ?evs\<rparr>) \<and>
          quiet ?evs \<and>
          sub_calls ?evs = map (\<lambda>(sf, a, r). (fst sf, a, r)) (fired st pr m r) \<and>
          length (sub_error_logs ?evs) =
            length (filter (\<lambda>(sf, a, r). snd sf a r \<noteq> None) (fired st pr m r))"
      using emit_subs_full [of pr m r st] sub_events_reads [of "fired st pr m r"] by simp
    then show "\<exists>c evs.
         emit_subs pr m r st = (None, c, st\<lparr>trace := trace st @ evs\<rparr>) \<and> quiet evs \<and>
         sub_calls evs = map (\<lambda>(sf, a, r). (fst sf, a, r)) (fired st pr m r) \<and>
         length (sub_error_logs evs) =
           length (filter (\<lambda>(sf, a, r). snd sf a r \<noteq> None) (fired st pr m r))"
      by (intro exI [of _ "fst (snd (emit_subs pr m r st))"] exI [of _ ?evs])
  qed
  have B: "\<forall>st' a c.
         do_act so inst actmeta pc0 msg cb st = Inr st' \<and>
         handler_calls (trace st') = handler_calls (trace st) @ [(a, c)] \<longrightarrow>
         (\<exists>m rest.
            (\<forall>k. k \<noteq> ''meta$'' \<longrightarrow> get c k = get m k) \<and>
            (\<forall>k. k \<noteq> ''sub'' \<longrightarrow> jsprop (get c ''meta$'') k = jsprop (get m ''meta$'') k) \<and>
            jsprop (get m ''meta$'') ''entry'' =
              JBool (case pc0 of None \<Rightarrow> True | Some pc \<Rightarrow> entry pc) \<and>
            sub_calls (trace st') =
              sub_calls (trace st) @
              map (\<lambda>(sf, a, r). (fst sf, a, r)) (fired st ''in$'' m JUndefined) @ rest \<and>
            (rest = [] \<or>
             (\<exists>r. rest = map (\<lambda>(sf, a, r). (fst sf, a, r)) (fired st ''out$'' c r))))"
  proof (intro allI impI, elim conjE)
    fix st' a c
    assume run: "do_act so inst actmeta pc0 msg cb st = Inr st'"
      and hc: "handler_calls (trace st') = handler_calls (trace st) @ [(a, c)]"
    show "\<exists>m rest.
            (\<forall>k. k \<noteq> ''meta$'' \<longrightarrow> get c k = get m k) \<and>
            (\<forall>k. k \<noteq> ''sub'' \<longrightarrow> jsprop (get c ''meta$'') k = jsprop (get m ''meta$'') k) \<and>
            jsprop (get m ''meta$'') ''entry'' =
              JBool (case pc0 of None \<Rightarrow> True | Some pc \<Rightarrow> entry pc) \<and>
            sub_calls (trace st') =
              sub_calls (trace st) @
              map (\<lambda>(sf, a, r). (fst sf, a, r)) (fired st ''in$'' m JUndefined) @ rest \<and>
            (rest = [] \<or>
             (\<exists>r. rest = map (\<lambda>(sf, a, r). (fst sf, a, r)) (fired st ''out$'' c r)))"
    proof (rule do_act_subs [OF run hc nm dm])
      fix m rest
      assume h: "\<forall>k. k \<noteq> ''meta$'' \<longrightarrow> get c k = get m k"
        "\<forall>k. k \<noteq> ''sub'' \<longrightarrow> jsprop (get c ''meta$'') k = jsprop (get m ''meta$'') k"
        "jsprop (get m ''meta$'') ''entry'' =
           JBool (case pc0 of None \<Rightarrow> True | Some pc \<Rightarrow> entry pc)"
        "sub_calls (trace st') =
           sub_calls (trace st) @
           map (\<lambda>(sf, a, r). (fst sf, a, r)) (fired st ''in$'' m JUndefined) @ rest"
        "rest = [] \<or>
         (\<exists>r. rest = map (\<lambda>(sf, a, r). (fst sf, a, r)) (fired st ''out$'' c r))"
      show ?thesis
        by (rule exI [of _ m], rule exI [of _ rest])
           (rule conjI [OF h(1) conjI [OF h(2) conjI [OF h(3) conjI [OF h(4) h(5)]]]])
    qed
  qed
  have C: "\<forall>fr result.
         sub_calls (trace (act_done so fr result st)) =
           sub_calls (trace st) @
           (if truthy (result_error so fr result) then []
            else map (\<lambda>(sf, a, r). (fst sf, a, r))
                   (fired st ''out$'' (f_callargs fr) (arg_at result 1)))"
    by (intro allI) (rule act_done_subs)
  have D: "\<forall>tx callargs am pc prior_args prior_cb st'.
         delegate_prior so inst tx callargs am pc prior_args prior_cb st = Inr st' \<and>
         distinct (map fst prior_args) \<longrightarrow>
         sub_calls (trace st') = sub_calls (trace st)"
    using delegate_prior_subs [OF _ nm] by blast
  have E: "\<forall>p sf.
         handle_sub_installed (api_sub p sf st) \<and>
         (let P = (if is_nullish (get p ''in$'') \<and> is_nullish (get p ''out$'') \<and>
                      is_nullish (get p ''error$'') \<and> is_nullish (get p ''cache$'') \<and>
                      is_nullish (get p ''default$'') \<and> is_nullish (get p ''client$'')
                   then put p ''in$'' (JBool True) else p)
          in pattern_matches P P \<longrightarrow>
             (\<exists>sl. router_find (subrouter (api_sub p sf st)) P = Some sl \<and>
                   subs_funcs sl =
                     (case router_find (subrouter st) P of
                        None \<Rightarrow> [] | Some f \<Rightarrow> subs_funcs f) @ [sf]))"
    unfolding Let_def
  proof (intro allI conjI impI)
    fix p sf
    show "handle_sub_installed (api_sub p sf st)" by simp
  next
    fix p sf
    let ?P = "if is_nullish (get p ''in$'') \<and> is_nullish (get p ''out$'') \<and>
                      is_nullish (get p ''error$'') \<and> is_nullish (get p ''cache$'') \<and>
                      is_nullish (get p ''default$'') \<and> is_nullish (get p ''client$'')
                   then put p ''in$'' (JBool True) else p"
    assume "pattern_matches ?P ?P"
    from api_sub_find(1) [OF refl this]
    show "\<exists>sl. router_find (subrouter (api_sub p sf st)) ?P = Some sl \<and>
                   subs_funcs sl =
                     (case router_find (subrouter st) ?P of
                        None \<Rightarrow> [] | Some f \<Rightarrow> subs_funcs f) @ [sf]" .
  qed
  have F: "id_ok msg \<longrightarrow> (\<exists>st'. do_act so inst actmeta pc0 msg cb st = Inr st')"
  proof
    assume "id_ok msg"
    from act_ids_ok [OF this, of inst st] obtain a tx n where
      ids: "act_ids inst msg st = Inr (a @ ''/'' @ to_string tx, tx, st\<lparr>nid_next := n\<rparr>)"
      by blast
    show "\<exists>st'. do_act so inst actmeta pc0 msg cb st = Inr st'"
    proof (cases "cache_lookup so msg (st\<lparr>nid_next := n\<rparr>)")
      case None
      from do_act_fresh [OF ids None] show ?thesis by blast
    next
      case (Some e)
      from do_act_replay [OF ids Some, of actmeta pc0 cb] show ?thesis by blast
    qed
  qed
  note main = conjI [OF A conjI [OF B conjI [OF C conjI [OF D conjI [OF E F]]]]]
  show ?thesis
    unfolding Let_def by (rule main [unfolded fired_def Let_def])
qed

theorem subscribers_fire_witness:
  "handle_sub_installed state_subs \<and>
   (\<exists>c evs.
      emit_subs ''in$'' message_in JUndefined state_subs =
        (None, c, state_subs\<lparr>trace := trace state_subs @ evs\<rparr>) \<and>
      map fst (sub_calls evs) = [''throwing'', ''calm''] \<and> length (sub_error_logs evs) = 1) \<and>
   (\<exists>m. jsprop (get m ''meta$'') ''entry'' = JBool True \<and>
        (\<exists>rest. sub_calls (trace (after_do_act default_options root_instance None None pattern_x
                                     None state_subs)) =
                  map (\<lambda>(sf, a, r). (fst sf, a, r)) (fired state_subs ''in$'' m JUndefined) @
                  rest)) \<and>
   heard (after_do_act default_options root_instance None None pattern_x None state_subs) =
     ([''throwing'', ''calm''], 1, [JBool True],
      [(False, [JNull, JObj Plain [(''a'', JUndefined)]])]) \<and>
   sub_calls (trace (after_prior default_options root_instance (JStr ''t'') pattern_x meta_over
                       entry_ctxt message_prior None (api_sub pattern_x calm_sub state_over))) =
     sub_calls (trace (api_sub pattern_x calm_sub state_over)) \<and>
   heard (after_prior default_options root_instance (JStr ''t'') pattern_x meta_over entry_ctxt
            message_prior None (api_sub pattern_x calm_sub state_over)) =
     ([], 0, [JBool False], [(False, [JNull, JObj Plain [(''a'', JNum 7)]])]) \<and>
   (\<exists>sl. router_find (subrouter (api_sub pattern_x calm_sub state_subs))
            (put pattern_x ''in$'' (JBool True)) = Some sl \<and>
         map fst (subs_funcs sl) = [''throwing'', ''calm'', ''calm'']) \<and>
   (\<exists>st'. do_act default_options root_instance None None pattern_x None state_subs = Inr st')"
proof -
  let ?S = "after_do_act default_options root_instance None None pattern_x None state_subs"
  let ?st2 = "api_sub pattern_x calm_sub state_over"
  let ?S2 = "after_prior default_options root_instance (JStr ''t'') pattern_x meta_over entry_ctxt
               message_prior None ?st2"
  let ?P = "put pattern_x ''in$'' (JBool True)"
  have nm: "map_of (fixedargs root_instance) ''meta$'' = None"
    by (simp add: root_instance_def)
  have dm: "distinct (map fst pattern_x)"
    by (simp add: pattern_x_def)
  note t = subscribers_fire [of root_instance pattern_x state_subs default_options None None None,
             OF nm dm, unfolded Let_def, folded fired_def [unfolded Let_def]]
  note t2 = subscribers_fire [of root_instance pattern_x ?st2 default_options None None None,
             OF nm dm, unfolded Let_def]
  have i: "handle_sub_installed state_subs"
    by code_simp
  have f: "map (\<lambda>(sf, a, r). (fst sf, snd sf a r)) (fired state_subs ''in$'' message_in JUndefined) =
           [(''throwing'', Some (JStr ''oops'')), (''calm'', None)]"
    by code_simp
  from t [THEN conjunct1, rule_format, of "''in$''" message_in JUndefined]
  obtain c evs where e:
    "emit_subs ''in$'' message_in JUndefined state_subs =
       (None, c, state_subs\<lparr>trace := trace state_subs @ evs\<rparr>)"
    "sub_calls evs =
       map (\<lambda>(sf, a, r). (fst sf, a, r)) (fired state_subs ''in$'' message_in JUndefined)"
    "length (sub_error_logs evs) =
       length (filter (\<lambda>(sf, a, r). snd sf a r \<noteq> None)
                 (fired state_subs ''in$'' message_in JUndefined))"
    by blast
  have names: "map fst (sub_calls evs) = [''throwing'', ''calm'']"
    using arg_cong [OF f, of "map fst"] by (simp add: e(2) comp_def case_prod_unfold)
  have "length (filter (\<lambda>(sf, a, r). snd sf a r \<noteq> None)
                 (fired state_subs ''in$'' message_in JUndefined)) =
        length (filter (\<lambda>p. snd p \<noteq> None)
                  (map (\<lambda>(sf, a, r). (fst sf, snd sf a r))
                     (fired state_subs ''in$'' message_in JUndefined)))"
    by (simp add: filter_map comp_def case_prod_unfold)
  also have "\<dots> = 1"
    by (simp add: f)
  finally have logs: "length (sub_error_logs evs) = 1"
    using e(3) by simp
  have A: "\<exists>c evs.
      emit_subs ''in$'' message_in JUndefined state_subs =
        (None, c, state_subs\<lparr>trace := trace state_subs @ evs\<rparr>) \<and>
      map fst (sub_calls evs) = [''throwing'', ''calm''] \<and> length (sub_error_logs evs) = 1"
    by (rule exI [of _ c], rule exI [of _ evs]) (rule conjI [OF e(1) conjI [OF names logs]])
  have "id_ok pattern_x"
    by code_simp
  with t [THEN conjunct2, THEN conjunct2, THEN conjunct2, THEN conjunct2, THEN conjunct2]
  have F: "\<exists>st'. do_act default_options root_instance None None pattern_x None state_subs = Inr st'"
    by (rule mp)
  then have r: "do_act default_options root_instance None None pattern_x None state_subs = Inr ?S"
    by (auto simp: after_do_act_def)
  have h: "heard ?S = ([''throwing'', ''calm''], 1, [JBool True],
                       [(False, [JNull, JObj Plain [(''a'', JUndefined)]])])"
    by code_simp
  have h0: "handler_calls (trace state_subs) = []" "sub_calls (trace state_subs) = []"
    by code_simp+
  from h have "map (\<lambda>c. jsprop (get (snd c) ''meta$'') ''entry'') (handler_calls (trace ?S)) =
                 [JBool True]"
    by (simp add: heard_def)
  then obtain x where x: "handler_calls (trace ?S) = [x]"
    by (cases "handler_calls (trace ?S)") auto
  then have hc: "handler_calls (trace ?S) = handler_calls (trace state_subs) @ [(fst x, snd x)]"
    by (simp add: h0)
  from t [THEN conjunct2, THEN conjunct1, rule_format, of ?S "fst x" "snd x", OF conjI [OF r hc]]
  obtain m rest where b:
    "jsprop (get m ''meta$'') ''entry'' = JBool True"
    "sub_calls (trace ?S) =
       sub_calls (trace state_subs) @
       map (\<lambda>(sf, a, r). (fst sf, a, r)) (fired state_subs ''in$'' m JUndefined) @ rest"
    by auto
  from b(2) have "\<exists>rest. sub_calls (trace ?S) =
       map (\<lambda>(sf, a, r). (fst sf, a, r)) (fired state_subs ''in$'' m JUndefined) @ rest"
    by (simp add: h0)
  with b(1) have B: "\<exists>m. jsprop (get m ''meta$'') ''entry'' = JBool True \<and>
        (\<exists>rest. sub_calls (trace ?S) =
                  map (\<lambda>(sf, a, r). (fst sf, a, r)) (fired state_subs ''in$'' m JUndefined) @
                  rest)"
    by (rule_tac x = m in exI) simp
  have "case delegate_prior default_options root_instance (JStr ''t'') pattern_x meta_over
               entry_ctxt message_prior None ?st2 of
          Inr s \<Rightarrow> True | Inl e \<Rightarrow> False"
    by code_simp
  then have r2: "delegate_prior default_options root_instance (JStr ''t'') pattern_x meta_over
               entry_ctxt message_prior None ?st2 = Inr ?S2"
    by (cases "delegate_prior default_options root_instance (JStr ''t'') pattern_x meta_over
               entry_ctxt message_prior None ?st2")
       (simp_all add: after_prior_def)
  have d2: "distinct (map fst message_prior)"
    by (simp add: message_prior_def)
  from t2 [THEN conjunct2, THEN conjunct2, THEN conjunct2, THEN conjunct1, rule_format,
           OF conjI [OF r2 d2]]
  have D: "sub_calls (trace ?S2) = sub_calls (trace ?st2)" .
  have p: "heard ?S2 = ([], 0, [JBool False], [(False, [JNull, JObj Plain [(''a'', JNum 7)]])])"
    by code_simp
  have pm: "pattern_matches ?P ?P"
    "is_nullish (get pattern_x ''in$'') \<and> is_nullish (get pattern_x ''out$'') \<and>
     is_nullish (get pattern_x ''error$'') \<and> is_nullish (get pattern_x ''cache$'') \<and>
     is_nullish (get pattern_x ''default$'') \<and> is_nullish (get pattern_x ''client$'')"
    by code_simp+
  have fs: "map fst (case router_find (subrouter state_subs) ?P of
                       None \<Rightarrow> [] | Some f \<Rightarrow> subs_funcs f) = [''throwing'', ''calm'']"
    by code_simp
  from t [THEN conjunct2, THEN conjunct2, THEN conjunct2, THEN conjunct2, THEN conjunct1,
          rule_format, of pattern_x calm_sub, THEN conjunct2] pm
  obtain sl where sl:
    "router_find (subrouter (api_sub pattern_x calm_sub state_subs)) ?P = Some sl"
    "subs_funcs sl =
       (case router_find (subrouter state_subs) ?P of None \<Rightarrow> [] | Some f \<Rightarrow> subs_funcs f) @
       [calm_sub]"
    by auto
  from arg_cong [OF sl(2), of "map fst"] fs
  have "map fst (subs_funcs sl) = [''throwing'', ''calm'', ''calm'']"
    by (simp add: calm_sub_def)
  with sl(1) have E: "\<exists>sl. router_find (subrouter (api_sub pattern_x calm_sub state_subs)) ?P = Some sl \<and>
         map fst (subs_funcs sl) = [''throwing'', ''calm'', ''calm'']"
    by simp
  show ?thesis
    by (rule conjI [OF i conjI [OF A conjI [OF B conjI [OF h conjI [OF D conjI [OF p
          conjI [OF E F]]]]]]])
qed

theorem subscribers_shadowed_counterexample:
  "heard (after_act default_options root_instance message_x1 None state_calm) =
     ([''calm''], 0, [JBool True], [(False, [JNull, JObj Plain [(''a'', JNum 1)]])]) \<and>
   heard (after_act default_options root_instance message_x1 None state_shadowed) =
     ([''throwing''], 1, [JBool True], [(False, [JNull, JObj Plain [(''a'', JNum 1)]])]) \<and>
   heard (after_act default_options root_instance [(''role'', JStr ''x''), (''x'', JNum 2)] None
            state_filed) =
     ([''throwing'', ''calm''], 1, [JBool True], [(False, [JNull, JObj Plain [(''a'', JNum 2)]])])"
  by code_simp

subsection \<open>C10: the error handler\<close>




end
